theory Spec2Isabelle
  imports Complex_Main "HOL-Library.Sublist"
begin

section \<open>Python values used by the AI engine\<close>

text \<open>
  \<^verbatim>\<open>ai-engine/main.py\<close> works on Python floats and strings.
  \<^item> A float is modelled by the real number it denotes (NaN and the infinities are left
    out). A float literal of the source denotes the binary64 value nearest to its decimal,
    so \<^verbatim>\<open>0.8\<close> and \<^verbatim>\<open>0.89\<close> are the constants below, while \<^verbatim>\<open>0.5\<close> and \<^verbatim>\<open>0.75\<close> are
    exact. This matters where the source compares a score with \<^verbatim>\<open>0.8\<close>.
  \<^item> A string is a \<^typ>\<open>string\<close>; the test \<^verbatim>\<open>a in b\<close> on strings is \<^const>\<open>sublist\<close>.
  \<^item> \<^verbatim>\<open>int(x)\<close> on a float truncates towards zero.
\<close>

definition float_0_8 :: real where
  "float_0_8 = 3602879701896397 / 4503599627370496"

definition float_0_89 :: real where
  "float_0_89 = 8016407336719483 / 9007199254740992"

definition py_int :: "real \<Rightarrow> int" where
  "py_int x = (if 0 \<le> x then \<lfloor>x\<rfloor> else \<lceil>x\<rceil>)"

text \<open>
  An f-string is kept as the sequence of its pieces, literal text and interpolated
  values, so that the model does not depend on how \<^verbatim>\<open>str\<close> prints a float;
  \<open>render\<close> gives the characters once that function is fixed.
\<close>

datatype piece = Lit string | Val real

type_synonym fstring = "piece list"

fun render :: "(real \<Rightarrow> string) \<Rightarrow> fstring \<Rightarrow> string" where
  "render str_of [] = []"
| "render str_of (Lit s # ps) = s @ render str_of ps"
| "render str_of (Val v # ps) = str_of v @ render str_of ps"

section \<open>Recommendation generator\<close>

text \<open>The dictionary built by \<^verbatim>\<open>generate_recommendation\<close>, one field per key.\<close>

record recommendation =
  rec_id :: int
  title :: string
  description :: fstring
  details :: fstring
  impact :: string
  category :: string
  confidence :: real
  estimated_improvement :: string
  current_config :: string
  suggested_config :: string
  server :: string
  rec_timestamp :: int

text \<open>
  \<^verbatim>\<open>generate_recommendation(metric_name, value)\<close>. The two extra arguments are the
  floats that its two clock expressions evaluate to: \<open>t0\<close> is the value of
  \<^verbatim>\<open>time.time() * 1000\<close>, the float product as Python rounds it, from which \<^verbatim>\<open>rec_id\<close>
  is taken, and \<open>t1\<close> is the value of \<^verbatim>\<open>time.time()\<close> for the \<^verbatim>\<open>timestamp\<close> key.
  \<^verbatim>\<open>None\<close> is \<^const>\<open>None\<close>.
\<close>

definition generate_recommendation ::
  "real \<Rightarrow> real \<Rightarrow> string \<Rightarrow> real \<Rightarrow> recommendation option" where
  "generate_recommendation t0 t1 metric_name val =
    (let rid = py_int t0 in
     if sublist ''request_time'' metric_name \<or> sublist ''latency'' metric_name then
       Some \<lparr> rec_id = rid,
              title = ''Enable Micro-Caching'',
              description =
                [Lit ''High latency detected ('', Val val,
                 Lit ''ms). Enable micro-caching to reduce upstream load.''],
              details =
                [Lit ''Latency spike of '', Val val,
                 Lit ''ms observed. Micro-caching for 1s can significantly reduce backend pressure without affecting freshness.''],
              impact = ''high'',
              category = ''Performance'',
              confidence = float_0_89,
              estimated_improvement = ''-40% latency'',
              current_config = ''proxy_cache off;'',
              suggested_config = ''proxy_cache_valid 200 1s;'',
              server = ''nginx-prod-01'',
              rec_timestamp = py_int t1 \<rparr>
     else if sublist ''cpu'' metric_name then
       Some \<lparr> rec_id = rid,
              title = ''Optimize Worker Connections'',
              description =
                [Lit ''High CPU usage detected. Tune worker_connections to handle concurrency better.''],
              details =
                [Lit ''CPU saturation indicates thread contention. Increasing worker_connections provided we have enough file descriptors.''],
              impact = ''medium'',
              category = ''Performance'',
              confidence = 0.75,
              estimated_improvement = ''+20% throughput'',
              current_config = ''worker_connections 1024;'',
              suggested_config = ''worker_connections 4096;'',
              server = ''nginx-prod-01'',
              rec_timestamp = py_int t1 \<rparr>
     else None)"

section \<open>Log records and the log buffer\<close>

text \<open>
  A log record is the dictionary built by \<^verbatim>\<open>parse_otlp_logs\<close>. The records of the
  model are those whose \<^verbatim>\<open>severity\<close> and \<^verbatim>\<open>message\<close> are strings, as the log source
  delivers them. \<^verbatim>\<open>parse_otlp_logs\<close> would also store another JSON value that it finds in
  their place, and \<^verbatim>\<open>perform_rca\<close> would then raise on it; such records, and that
  exception, are outside the model, and nothing below says that \<^verbatim>\<open>process_message\<close>
  returns normally.
\<close>

record log_record =
  log_timestamp :: int
  severity :: string
  message :: string

definition LOG_BUFFER_SIZE :: nat where
  "LOG_BUFFER_SIZE = 1000"

text \<open>
  \<^verbatim>\<open>collections.deque(maxlen=n).append(x)\<close>: the item is added on the right and, when the
  deque then holds more than \<open>n\<close> items, the leftmost one is dropped. The list is the
  deque from left (oldest) to right (newest).
\<close>

definition deque_append :: "nat \<Rightarrow> 'a list \<Rightarrow> 'a \<Rightarrow> 'a list" where
  "deque_append maxlen d x = (let d' = d @ [x] in if length d' > maxlen then tl d' else d')"

text \<open>
  \<^verbatim>\<open>str.lower()\<close>, on the characters \<^verbatim>\<open>A\<close> to \<^verbatim>\<open>Z\<close>. Python also lowers letters outside
  ASCII; none of them becomes one of the letters of \<^verbatim>\<open>error\<close>, which is all that
  \<^verbatim>\<open>perform_rca\<close> looks for in the result.
\<close>

definition lower_char :: "char \<Rightarrow> char" where
  "lower_char c =
    (case map_of (zip ''ABCDEFGHIJKLMNOPQRSTUVWXYZ'' ''abcdefghijklmnopqrstuvwxyz'') c of
       None \<Rightarrow> c
     | Some d \<Rightarrow> d)"

definition lower :: "string \<Rightarrow> string" where
  "lower s = map lower_char s"

section \<open>Root cause analysis\<close>

text \<open>What the engine prints, one constructor per \<^verbatim>\<open>print\<close> call of the source.\<close>

datatype out =
  AlertLine string real real
| WarnLine string real real
| RcaHeader string real
| FoundLine nat
| ErrorLine string string
| RecLine string
| RcaFooter

text \<open>The condition of the list comprehension of \<^verbatim>\<open>perform_rca\<close>.\<close>

definition is_error_log :: "log_record \<Rightarrow> bool" where
  "is_error_log l =
    (severity l \<in> set [''ERROR'', ''FATAL''] \<or> sublist ''error'' (lower (message l)))"

text \<open>
  The loop over \<^verbatim>\<open>reversed(error_logs)\<close>, with its set \<^verbatim>\<open>shown_errors\<close> and its
  counter; the result is the lines it prints.
\<close>

fun show_errors :: "log_record list \<Rightarrow> string set \<Rightarrow> nat \<Rightarrow> out list" where
  "show_errors [] shown_errors count = []"
| "show_errors (l # logs) shown_errors count =
    (if message l \<notin> shown_errors then
       ErrorLine (severity l) (message l) #
         (if count + 1 \<ge> 5 then []
          else show_errors logs (insert (message l) shown_errors) (count + 1))
     else show_errors logs shown_errors count)"

text \<open>The block of \<^verbatim>\<open>perform_rca\<close> that finds and shows recent error logs.\<close>

definition report_errors :: "log_record list \<Rightarrow> out list" where
  "report_errors log_buffer =
    (let error_logs = filter is_error_log log_buffer in
     if error_logs \<noteq> [] then
       FoundLine (length error_logs) # show_errors (rev error_logs) {} 0
     else [])"

section \<open>The engine\<close>

text \<open>
  What the engine takes from outside: the anomaly model of the \<^verbatim>\<open>river\<close> library
  (\<^verbatim>\<open>HalfSpaceTrees(n_trees=10, height=8, window_size=200, seed=42)\<close> with its methods
  \<^verbatim>\<open>score_one\<close> and \<^verbatim>\<open>learn_one\<close>, over a model state \<open>'m\<close>), the two OTLP parsers
  (which catch every exception and return a list), the clock (the float that the
  \<open>k\<close>-th clock expression of the run evaluates to, \<^verbatim>\<open>time.time() * 1000\<close> or
  \<^verbatim>\<open>time.time()\<close>), and whether a call of \<^verbatim>\<open>producer.send\<close> or \<^verbatim>\<open>producer.flush\<close>
  raises (by the number of earlier calls).
  \<^verbatim>\<open>score_one\<close> reads the model and \<^verbatim>\<open>learn_one\<close> updates it; the parsers stand for
  \<^verbatim>\<open>parse_otlp_metrics\<close> and \<^verbatim>\<open>parse_otlp_logs\<close> of the source, whose results are all
  that \<^verbatim>\<open>process_message\<close> uses.
\<close>

record 'm env =
  new_model :: 'm
  score_one :: "'m \<Rightarrow> real \<Rightarrow> real"
  learn_one :: "'m \<Rightarrow> real \<Rightarrow> 'm"
  parse_otlp_metrics :: "string \<Rightarrow> (string \<times> real) list"
  parse_otlp_logs :: "string \<Rightarrow> log_record list"
  time_time :: "nat \<Rightarrow> real"
  send_raises :: "nat \<Rightarrow> bool"
  flush_raises :: "nat \<Rightarrow> bool"

text \<open>
  The module's globals: \<^verbatim>\<open>detectors\<close>, \<^verbatim>\<open>log_buffer\<close>, the producer (the records
  passed to \<^verbatim>\<open>send\<close> and the number of \<^verbatim>\<open>flush\<close> calls), standard output and the
  number of clock readings. \<open>score_log\<close> is a ghost field: every score computed, in order.
\<close>

record 'm engine =
  detectors :: "string \<Rightarrow> 'm option"
  log_buffer :: "log_record list"
  send_calls :: "recommendation list"
  flush_calls :: nat
  stdout :: "out list"
  clock :: nat
  score_log :: "(string \<times> real) list"

datatype exn = SendError | FlushError

datatype status = Returned | Raised exn

definition print :: "out list \<Rightarrow> 'm engine \<Rightarrow> 'm engine" where
  "print ls s = s\<lparr>stdout := stdout s @ ls\<rparr>"

definition perform_rca ::
  "'m env \<Rightarrow> string \<Rightarrow> real \<Rightarrow> 'm engine \<Rightarrow> status \<times> 'm engine" where
  "perform_rca e metric_name val s =
    (let s1 = print (RcaHeader metric_name val # report_errors (log_buffer s)) s;
         rec = generate_recommendation (time_time e (clock s1)) (time_time e (clock s1 + 1))
                 metric_name val
     in case rec of
          None \<Rightarrow> (Returned, print [RcaFooter] (s1\<lparr>clock := clock s1 + 1\<rparr>))
        | Some r \<Rightarrow>
            (let s2 = print [RecLine (title r)] (s1\<lparr>clock := clock s1 + 2\<rparr>);
                 s3 = s2\<lparr>send_calls := send_calls s2 @ [r]\<rparr>
             in if send_raises e (length (send_calls s2)) then (Raised SendError, s3)
                else
                  (let s4 = s3\<lparr>flush_calls := flush_calls s3 + 1\<rparr>
                   in if flush_raises e (flush_calls s3) then (Raised FlushError, s4)
                      else (Returned, print [RcaFooter] s4))))"

text \<open>
  \<^verbatim>\<open>detectors[metric_name]\<close> on the \<^verbatim>\<open>defaultdict\<close>: a missing key gets a newly
  constructed model.
\<close>

definition get_detector :: "'m env \<Rightarrow> (string \<Rightarrow> 'm option) \<Rightarrow> string \<Rightarrow> 'm" where
  "get_detector e d metric_name =
    (case d metric_name of None \<Rightarrow> new_model e | Some m \<Rightarrow> m)"

text \<open>
  The body of the loop over the parsed metrics in \<^verbatim>\<open>process_message\<close>; the model object
  is updated in place by \<^verbatim>\<open>learn_one\<close>.
\<close>

definition process_sample ::
  "'m env \<Rightarrow> string \<times> real \<Rightarrow> 'm engine \<Rightarrow> status \<times> 'm engine" where
  "process_sample e sample s =
    (let metric_name = fst sample; val = snd sample;
         model = get_detector e (detectors s) metric_name;
         score = score_one e model val;
         s1 = s\<lparr>detectors := (detectors s)(metric_name \<mapsto> learn_one e model val),
                score_log := score_log s @ [(metric_name, score)]\<rparr>
     in if score > float_0_8 then
          perform_rca e metric_name val (print [AlertLine metric_name val score] s1)
        else if score > 0.5 then
          (Returned, print [WarnLine metric_name val score] s1)
        else (Returned, s1))"

text \<open>The loop itself: an exception ends it.\<close>

fun process_metrics ::
  "'m env \<Rightarrow> (string \<times> real) list \<Rightarrow> 'm engine \<Rightarrow> status \<times> 'm engine" where
  "process_metrics e [] s = (Returned, s)"
| "process_metrics e (sample # metrics) s =
    (case process_sample e sample s of
       (Raised x, s') \<Rightarrow> (Raised x, s')
     | (Returned, s') \<Rightarrow> process_metrics e metrics s')"

record message =
  topic :: string
  msg_value :: string

definition process_message ::
  "'m env \<Rightarrow> message \<Rightarrow> 'm engine \<Rightarrow> status \<times> 'm engine" where
  "process_message e msg s =
    (if topic msg = ''telemetry-metrics'' then
       process_metrics e (parse_otlp_metrics e (msg_value msg)) s
     else if topic msg = ''telemetry-logs'' then
       (Returned,
        s\<lparr>log_buffer :=
            foldl (deque_append LOG_BUFFER_SIZE) (log_buffer s)
              (parse_otlp_logs e (msg_value msg))\<rparr>)
     else (Returned, s))"

text \<open>The loop of \<^verbatim>\<open>main\<close> over the consumer: an exception ends the process.\<close>

fun consume :: "'m env \<Rightarrow> message list \<Rightarrow> 'm engine \<Rightarrow> status \<times> 'm engine" where
  "consume e [] s = (Returned, s)"
| "consume e (msg # msgs) s =
    (case process_message e msg s of
       (Raised x, s') \<Rightarrow> (Raised x, s')
     | (Returned, s') \<Rightarrow> consume e msgs s')"

text \<open>The globals when the module has been loaded.\<close>

definition init_engine :: "'m engine" where
  "init_engine =
    \<lparr> detectors = Map.empty, log_buffer = [], send_calls = [], flush_calls = 0,
      stdout = [], clock = 0, score_log = [] \<rparr>"

section \<open>The streaming anomaly scorer\<close>

text \<open>
  Modelled from the spec: the anomaly model itself. The source takes it from the
  \<^verbatim>\<open>river\<close> library (\<^verbatim>\<open>anomaly.HalfSpaceTrees\<close>), which is not part of the repository;
  the definitions of this section follow section 4.2 of the specification. A tree node
  holds its reference-window count and its current-window count, an internal node also
  its split point.
\<close>

datatype hs_tree =
  Leaf nat nat
| Node real nat nat hs_tree hs_tree

text \<open>
  Modelled from the spec: a tree is built once, to depth \<open>h\<close>, over the working range
  from \<open>lo\<close> to \<open>hi\<close>; every internal node splits its range at a point drawn from the
  seeded generator, and all counts start at zero. \<open>draw i\<close> is the \<open>i\<close>-th number of
  the generator, between 0 and 1; the result also gives the index of the next draw.
\<close>

fun build_tree :: "(nat \<Rightarrow> real) \<Rightarrow> nat \<Rightarrow> real \<Rightarrow> real \<Rightarrow> nat \<Rightarrow> hs_tree \<times> nat" where
  "build_tree draw 0 lo hi i = (Leaf 0 0, i)"
| "build_tree draw (Suc h) lo hi i =
    (let p = lo + draw i * (hi - lo);
         (lt, j) = build_tree draw h lo p (Suc i);
         (rt, k) = build_tree draw h p hi j
     in (Node p 0 0 lt rt, k))"

fun build_trees :: "(nat \<Rightarrow> real) \<Rightarrow> nat \<Rightarrow> nat \<Rightarrow> real \<Rightarrow> real \<Rightarrow> nat \<Rightarrow> hs_tree list" where
  "build_trees draw 0 h lo hi i = []"
| "build_trees draw (Suc n) h lo hi i =
    (let (t, j) = build_tree draw h lo hi i in t # build_trees draw n h lo hi j)"

text \<open>
  Modelled from the spec: an anomaly model owns \<open>n_trees\<close> trees of depth \<open>height\<close>
  and counts the samples it has learned.
\<close>

record anomaly_model =
  n_trees :: nat
  height :: nat
  window_size :: nat
  trees :: "hs_tree list"
  learned :: nat

text \<open>
  Modelled from the spec: construction with fixed hyperparameters and a seed.
  \<open>generator seed\<close> is the sequence of numbers of the generator seeded with \<open>seed\<close>,
  \<open>limits\<close> the working range.
\<close>

definition construct ::
  "(int \<Rightarrow> nat \<Rightarrow> real) \<Rightarrow> real \<times> real \<Rightarrow> nat \<Rightarrow> nat \<Rightarrow> nat \<Rightarrow> int \<Rightarrow> anomaly_model" where
  "construct generator limits n h w seed =
    \<lparr> n_trees = n, height = h, window_size = w,
      trees = build_trees (generator seed) n h (fst limits) (snd limits) 0,
      learned = 0 \<rparr>"

text \<open>
  Modelled from the spec: the walk of \<^verbatim>\<open>score_one\<close> from the root to a leaf, following
  the value against each split point; every visited node adds its reference count
  divided by \<open>2 ^ depth\<close>.
\<close>

fun path_mass :: "hs_tree \<Rightarrow> real \<Rightarrow> nat \<Rightarrow> real" where
  "path_mass (Leaf r c) v depth = real r / 2 ^ depth"
| "path_mass (Node p r c lt rt) v depth =
    real r / 2 ^ depth + path_mass (if v < p then lt else rt) v (Suc depth)"

text \<open>
  Modelled from the spec: the maximum possible mass of one walk, reached when every
  visited node holds a whole window.
\<close>

definition max_mass :: "nat \<Rightarrow> nat \<Rightarrow> real" where
  "max_mass h w = real w * (\<Sum>d\<le>h. 1 / 2 ^ d)"

datatype py_error = ZeroDivisionError

text \<open>
  Modelled from the spec: \<^verbatim>\<open>score_one\<close> changes nothing. Before the first window
  rotation, that is while fewer than \<open>window_size\<close> samples have been learned, the score
  is defined to be 0. Afterwards the walks of all trees are summed and the sum is
  normalised by the number of trees and the maximum possible mass; low mass means an
  isolated value and a high score, and a higher score is more anomalous, so the score is
  one minus the normalised mass. A division by zero is an error, as in Python.
\<close>

definition hst_score_one :: "anomaly_model \<Rightarrow> real \<Rightarrow> py_error + real" where
  "hst_score_one m v =
    (if learned m < window_size m then Inr 0
     else
       (let total = sum_list (map (\<lambda>t. path_mass t v 0) (trees m));
            denom = real (n_trees m) * max_mass (height m) (window_size m)
        in if denom = 0 then Inl ZeroDivisionError else Inr (1 - total / denom)))"

text \<open>
  Modelled from the spec: \<^verbatim>\<open>learn_one\<close> adds one to the current-window count of every
  node on the same walk.
\<close>

fun learn_tree :: "real \<Rightarrow> hs_tree \<Rightarrow> hs_tree" where
  "learn_tree v (Leaf r c) = Leaf r (Suc c)"
| "learn_tree v (Node p r c lt rt) =
    (if v < p then Node p r (Suc c) (learn_tree v lt) rt
     else Node p r (Suc c) lt (learn_tree v rt))"

text \<open>
  Modelled from the spec: window rotation copies the current-window count of every node
  into its reference count and resets the current-window count.
\<close>

fun rotate_tree :: "hs_tree \<Rightarrow> hs_tree" where
  "rotate_tree (Leaf r c) = Leaf c 0"
| "rotate_tree (Node p r c lt rt) = Node p c 0 (rotate_tree lt) (rotate_tree rt)"

text \<open>
  Modelled from the spec: \<^verbatim>\<open>learn_one\<close> on the model, with a rotation every
  \<open>window_size\<close> learned samples (the window size is positive).
\<close>

definition hst_learn_one :: "anomaly_model \<Rightarrow> real \<Rightarrow> anomaly_model" where
  "hst_learn_one m v =
    (let ts = map (learn_tree v) (trees m); k = learned m + 1
     in if window_size m \<noteq> 0 \<and> k mod window_size m = 0
        then m\<lparr>trees := map rotate_tree ts, learned := k\<rparr>
        else m\<lparr>trees := ts, learned := k\<rparr>)"

text \<open>The counts of all nodes of a tree, and its depth.\<close>

fun ref_counts :: "hs_tree \<Rightarrow> nat list" where
  "ref_counts (Leaf r c) = [r]"
| "ref_counts (Node p r c lt rt) = r # ref_counts lt @ ref_counts rt"

fun cur_counts :: "hs_tree \<Rightarrow> nat list" where
  "cur_counts (Leaf r c) = [c]"
| "cur_counts (Node p r c lt rt) = c # cur_counts lt @ cur_counts rt"

fun depth_of :: "hs_tree \<Rightarrow> nat" where
  "depth_of (Leaf r c) = 0"
| "depth_of (Node p r c lt rt) = Suc (max (depth_of lt) (depth_of rt))"

text \<open>
  The two counts of every node on the walk of a value, from the root to the leaf.
\<close>

fun walk :: "hs_tree \<Rightarrow> real \<Rightarrow> (nat \<times> nat) list" where
  "walk (Leaf r c) v = [(r, c)]"
| "walk (Node p r c lt rt) v = (r, c) # walk (if v < p then lt else rt) v"

text \<open>
  What holds of every model that is reached from construction by learning: the number
  of trees and their depth are as constructed, no reference count exceeds the window
  size, and no current count exceeds the number of samples learned since the last
  rotation.
\<close>

definition hst_inv :: "anomaly_model \<Rightarrow> bool" where
  "hst_inv m =
    (length (trees m) = n_trees m \<and>
     (\<forall>t \<in> set (trees m).
        depth_of t \<le> height m \<and>
        (\<forall>r \<in> set (ref_counts t). r \<le> window_size m) \<and>
        (\<forall>c \<in> set (cur_counts t). c \<le> learned m mod window_size m)))"

section \<open>The specification's wording, for comparison\<close>

text \<open>
  The RCA correlator as the specification words it: case-insensitive containment,
  deduplication by message text where the first occurrence wins, at most five results
  from a scan that starts at the most recent record.
\<close>

fun ci_prefix :: "string \<Rightarrow> string \<Rightarrow> bool" where
  "ci_prefix [] s = True"
| "ci_prefix (p # ps) [] = False"
| "ci_prefix (p # ps) (c # cs) = (lower_char p = lower_char c \<and> ci_prefix ps cs)"

fun ci_contains :: "string \<Rightarrow> string \<Rightarrow> bool" where
  "ci_contains needle [] = ci_prefix needle []"
| "ci_contains needle (c # cs) = (ci_prefix needle (c # cs) \<or> ci_contains needle cs)"

definition spec_selected :: "log_record \<Rightarrow> bool" where
  "spec_selected l =
    (severity l = ''ERROR'' \<or> severity l = ''FATAL'' \<or> ci_contains ''error'' (message l))"

fun dedup_by_message :: "log_record list \<Rightarrow> log_record list" where
  "dedup_by_message [] = []"
| "dedup_by_message (l # ls) =
    l # dedup_by_message (filter (\<lambda>m. message m \<noteq> message l) ls)"

definition spec_correlate :: "log_record list \<Rightarrow> (string \<times> string) list" where
  "spec_correlate buffer =
    map (\<lambda>l. (severity l, message l))
      (take 5 (dedup_by_message (filter spec_selected (rev buffer))))"

text \<open>The alert classifier as the specification words it.\<close>

datatype tier = NORMAL | WARNING | ALERT

definition classify :: "real \<Rightarrow> real \<Rightarrow> real \<Rightarrow> tier" where
  "classify score anomaly_threshold warning_threshold =
    (if score > anomaly_threshold then ALERT
     else if score > warning_threshold then WARNING
     else NORMAL)"

text \<open>The log records that a sequence of messages carries, in arrival order.\<close>

definition log_records :: "'m env \<Rightarrow> message list \<Rightarrow> log_record list" where
  "log_records e msgs =
    concat (map (\<lambda>msg. if topic msg = ''telemetry-logs''
                          then parse_otlp_logs e (msg_value msg) else []) msgs)"

section \<open>Concrete surroundings for examples\<close>

text \<open>
  A small environment to run the engine in: the model state is the list of the values
  learned so far, the parsers return fixed lists, the clock counts its readings.
\<close>

definition stub_env ::
  "(real list \<Rightarrow> real \<Rightarrow> real) \<Rightarrow> (string \<times> real) list \<Rightarrow> log_record list \<Rightarrow>
     (nat \<Rightarrow> bool) \<Rightarrow> (nat \<Rightarrow> bool) \<Rightarrow> (real list) env" where
  "stub_env scorer metrics logs send_down flush_down =
    \<lparr> new_model = [], score_one = scorer, learn_one = (\<lambda>m v. m @ [v]),
      parse_otlp_metrics = (\<lambda>b. metrics), parse_otlp_logs = (\<lambda>b. logs),
      time_time = (\<lambda>k. real k), send_raises = send_down, flush_raises = flush_down \<rparr>"

text \<open>A scorer that reports a value far above the last learned one.\<close>

definition spike_score :: "real list \<Rightarrow> real \<Rightarrow> real" where
  "spike_score m v =
    (if m = [] then 0 else if v > 10 * last m then 0.9 else if v > 2 * last m then 0.6 else 0.1)"

definition sink_up :: "nat \<Rightarrow> bool" where
  "sink_up k = False"

definition sink_down :: "nat \<Rightarrow> bool" where
  "sink_down k = True"

definition metrics_msg :: message where
  "metrics_msg = \<lparr> topic = ''telemetry-metrics'', msg_value = [] \<rparr>"

definition logs_msg :: message where
  "logs_msg = \<lparr> topic = ''telemetry-logs'', msg_value = [] \<rparr>"

definition log_of :: "string \<Rightarrow> string \<Rightarrow> log_record" where
  "log_of sev msg = \<lparr> log_timestamp = 0, severity = sev, message = msg \<rparr>"

text \<open>
  An engine that has learned the value 1 for the metric \<^verbatim>\<open>cpu\<close> and holds two log
  records; an environment whose next metrics message carries the samples 50 and 3 for
  \<^verbatim>\<open>cpu\<close>, with a working sink, and the same with a sink whose \<^verbatim>\<open>send\<close> raises.
\<close>

definition demo_engine :: "(real list) engine" where
  "demo_engine =
    init_engine\<lparr> detectors := [''cpu'' \<mapsto> [1]],
                 log_buffer := [log_of ''ERROR'' ''disk full'', log_of ''INFO'' ''ok''] \<rparr>"

definition demo_env :: "(real list) env" where
  "demo_env =
    stub_env spike_score [(''cpu'', 50), (''cpu'', 3)] [log_of ''FATAL'' ''oom''] sink_up sink_up"

definition down_env :: "(real list) env" where
  "down_env =
    stub_env spike_score [(''cpu'', 50), (''cpu'', 3)] [log_of ''FATAL'' ''oom''] sink_down sink_up"

text \<open>
  Modelled from the spec: a generator for examples, every draw of which is one half.
\<close>

definition half_generator :: "int \<Rightarrow> nat \<Rightarrow> real" where
  "half_generator seed i = 1 / 2"

text \<open>
  An engine whose log buffer is full, and an environment whose logs message carries more
  records than the buffer holds.
\<close>

definition full_engine :: "(real list) engine" where
  "full_engine = init_engine\<lparr> log_buffer := replicate 1000 (log_of ''INFO'' ''ok'') \<rparr>"

definition flood_env :: "(real list) env" where
  "flood_env =
    stub_env spike_score [] (replicate 1000 (log_of ''INFO'' ''ok'') @ [log_of ''FATAL'' ''oom''])
      sink_up sink_up"

section \<open>Properties\<close>

subsection \<open>Recommendation generator\<close>

text \<open>
  Claim C6. For every metric name and value: a name containing \<^verbatim>\<open>request_time\<close> or
  \<^verbatim>\<open>latency\<close> gives a recommendation with category Performance, impact high and
  confidence 0.89; otherwise a name containing \<^verbatim>\<open>cpu\<close> gives one with impact medium and
  confidence 0.75; otherwise the result is none, and no case raises an error. The three
  examples of the specification are instances.
\<close>

theorem generate_recommendation_rules:
  "(sublist ''request_time'' n \<or> sublist ''latency'' n \<longrightarrow>
      (\<exists>r. generate_recommendation t0 t1 n v = Some r \<and> category r = ''Performance'' \<and>
           impact r = ''high'' \<and> confidence r = float_0_89))
   \<and> (\<not> sublist ''request_time'' n \<and> \<not> sublist ''latency'' n \<and> sublist ''cpu'' n \<longrightarrow>
      (\<exists>r. generate_recommendation t0 t1 n v = Some r \<and> impact r = ''medium'' \<and>
           confidence r = 0.75))
   \<and> (\<not> sublist ''request_time'' n \<and> \<not> sublist ''latency'' n \<and> \<not> sublist ''cpu'' n \<longrightarrow>
      generate_recommendation t0 t1 n v = None)
   \<and> (\<exists>r. generate_recommendation t0 t1 ''nginx_request_time_ms'' 450 = Some r \<and>
           category r = ''Performance'' \<and> impact r = ''high'')
   \<and> (\<exists>r. generate_recommendation t0 t1 ''node_cpu_usage'' 95 = Some r \<and> impact r = ''medium'')
   \<and> generate_recommendation t0 t1 ''disk_free_bytes'' 10 = None"
  by (simp add: generate_recommendation_def Let_def sublist_Cons_right)

theorem generate_recommendation_rules_witness:
  "sublist ''latency'' ''api_latency_p99'' \<and>
   (\<exists>r. generate_recommendation 1.5 2 ''api_latency_p99'' 7 = Some r \<and>
        category r = ''Performance'' \<and> impact r = ''high'' \<and> confidence r = float_0_89) \<and>
   \<not> sublist ''request_time'' ''cpu_load'' \<and> \<not> sublist ''latency'' ''cpu_load'' \<and>
   sublist ''cpu'' ''cpu_load'' \<and>
   (\<exists>r. generate_recommendation 1.5 2 ''cpu_load'' 7 = Some r \<and> impact r = ''medium'' \<and>
        confidence r = 0.75) \<and>
   \<not> sublist ''request_time'' ''CPU'' \<and> \<not> sublist ''latency'' ''CPU'' \<and>
   \<not> sublist ''cpu'' ''CPU'' \<and>
   generate_recommendation 1.5 2 ''CPU'' 7 = None"
  using generate_recommendation_rules [of "''api_latency_p99''" "1.5" 2 7]
    generate_recommendation_rules [of "''cpu_load''" "1.5" 2 7]
    generate_recommendation_rules [of "''CPU''" "1.5" 2 7]
  by (simp add: sublist_Cons_right)

text \<open>
  Claim C3, as stated: every matching rule interpolates the triggering value into the
  description and the details. The cpu template does not: for \<^verbatim>\<open>node_cpu_usage\<close> and the
  value 95 both texts are one literal piece, with no interpolated value.
\<close>

theorem cpu_template_counterexample:
  "map_option description (generate_recommendation 0 0 ''node_cpu_usage'' 95) =
     Some [Lit ''High CPU usage detected. Tune worker_connections to handle concurrency better.'']
   \<and> map_option details (generate_recommendation 0 0 ''node_cpu_usage'' 95) =
     Some [Lit ''CPU saturation indicates thread contention. Increasing worker_connections provided we have enough file descriptors.'']"
  by (simp add: generate_recommendation_def Let_def sublist_Cons_right)

text \<open>
  Claim C3, amended. The request_time/latency template interpolates the triggering
  value into its description and its details; the description and the details of the cpu
  template are fixed texts, the same for every value.
\<close>

theorem templates_interpolation:
  "(sublist ''request_time'' n \<or> sublist ''latency'' n \<longrightarrow>
      (\<exists>r. generate_recommendation t0 t1 n v = Some r \<and>
           Val v \<in> set (description r) \<and> Val v \<in> set (details r) \<and>
           render str_of (description r) =
             ''High latency detected ('' @ str_of v @
             ''ms). Enable micro-caching to reduce upstream load.'' \<and>
           render str_of (details r) =
             ''Latency spike of '' @ str_of v @
             ''ms observed. Micro-caching for 1s can significantly reduce backend pressure without affecting freshness.''))
   \<and> (\<not> sublist ''request_time'' n \<and> \<not> sublist ''latency'' n \<and> sublist ''cpu'' n \<longrightarrow>
      (\<exists>r. generate_recommendation t0 t1 n v = Some r \<and>
           render str_of (description r) =
             ''High CPU usage detected. Tune worker_connections to handle concurrency better.'' \<and>
           render str_of (details r) =
             ''CPU saturation indicates thread contention. Increasing worker_connections provided we have enough file descriptors.''))"
  by (simp add: generate_recommendation_def Let_def)

theorem templates_interpolation_witness:
  "sublist ''request_time'' ''nginx_request_time_ms'' \<and>
   (\<exists>r. generate_recommendation 0 0 ''nginx_request_time_ms'' 450 = Some r \<and>
        Val 450 \<in> set (description r) \<and> Val 450 \<in> set (details r) \<and>
        render (\<lambda>x. ''450.0'') (description r) =
          ''High latency detected (450.0ms). Enable micro-caching to reduce upstream load.'' \<and>
        render (\<lambda>x. ''450.0'') (details r) =
          ''Latency spike of 450.0ms observed. Micro-caching for 1s can significantly reduce backend pressure without affecting freshness.'') \<and>
   \<not> sublist ''request_time'' ''node_cpu_usage'' \<and> \<not> sublist ''latency'' ''node_cpu_usage'' \<and>
   sublist ''cpu'' ''node_cpu_usage'' \<and>
   (\<exists>r. generate_recommendation 0 0 ''node_cpu_usage'' 95 = Some r \<and>
        render (\<lambda>x. ''95.0'') (description r) =
          ''High CPU usage detected. Tune worker_connections to handle concurrency better.'' \<and>
        render (\<lambda>x. ''95.0'') (details r) =
          ''CPU saturation indicates thread contention. Increasing worker_connections provided we have enough file descriptors.'')"
  using templates_interpolation [of "''nginx_request_time_ms''" 0 0 450 "\<lambda>x. ''450.0''"]
    templates_interpolation [of "''node_cpu_usage''" 0 0 95 "\<lambda>x. ''95.0''"]
  by (simp add: sublist_Cons_right)

subsection \<open>Auxiliary facts: the log buffer\<close>

lemma deque_append_length: "length d \<le> B \<Longrightarrow> length (deque_append B d x) \<le> B"
  by (auto simp: deque_append_def Let_def)

lemma deque_append_drop:
  "length d \<le> B \<Longrightarrow> deque_append B d x = drop (length (d @ [x]) - B) (d @ [x])"
  by (cases d) (auto simp: deque_append_def Let_def Suc_diff_le)

lemma drop_last_twice:
  "drop (length (drop (length ys - B) ys @ xs) - B) (drop (length ys - B) ys @ xs) =
   drop (length (ys @ xs) - B) (ys @ xs)"
proof -
  let ?k = "length ys - B"
  have app: "drop ?k ys @ xs = drop ?k (ys @ xs)"
    by simp
  have ar: "length (drop ?k (ys @ xs)) - B + ?k = length (ys @ xs) - B"
    by (simp only: length_drop length_append)
  show ?thesis
    by (simp only: app drop_drop ar)
qed

lemma foldl_deque_append:
  "length d \<le> B \<Longrightarrow>
   foldl (deque_append B) d xs = drop (length (d @ xs) - B) (d @ xs)"
proof (induction xs arbitrary: d)
  case Nil
  then show ?case by simp
next
  case (Cons x xs)
  have len: "length (deque_append B d x) \<le> B"
    using Cons.prems by (rule deque_append_length)
  have step: "deque_append B d x = drop (length (d @ [x]) - B) (d @ [x])"
    using Cons.prems by (rule deque_append_drop)
  have "foldl (deque_append B) d (x # xs) = foldl (deque_append B) (deque_append B d x) xs"
    by simp
  also have "\<dots> = drop (length (deque_append B d x @ xs) - B) (deque_append B d x @ xs)"
    by (rule Cons.IH [OF len])
  also have "\<dots> = drop (length ((d @ [x]) @ xs) - B) ((d @ [x]) @ xs)"
    unfolding step by (rule drop_last_twice)
  finally show ?case by simp
qed

lemma foldl_deque_append_length:
  "length d \<le> B \<Longrightarrow> length (foldl (deque_append B) d xs) \<le> B"
  by (simp add: foldl_deque_append)

subsection \<open>Auxiliary facts: the engine\<close>

lemma print_simps [simp]:
  "detectors (print ls s) = detectors s"
  "log_buffer (print ls s) = log_buffer s"
  "send_calls (print ls s) = send_calls s"
  "flush_calls (print ls s) = flush_calls s"
  "stdout (print ls s) = stdout s @ ls"
  "clock (print ls s) = clock s"
  "score_log (print ls s) = score_log s"
  by (simp_all add: print_def)

lemma perform_rca_frame:
  "log_buffer (snd (perform_rca e n v s)) = log_buffer s"
  "detectors (snd (perform_rca e n v s)) = detectors s"
  "score_log (snd (perform_rca e n v s)) = score_log s"
  by (simp_all add: perform_rca_def Let_def split: option.splits)

lemma process_sample_frame:
  "log_buffer (snd (process_sample e x s)) = log_buffer s"
  by (simp add: process_sample_def Let_def perform_rca_frame)

lemma process_metrics_frame:
  "log_buffer (snd (process_metrics e ms s)) = log_buffer s"
proof (induction ms arbitrary: s)
  case Nil
  then show ?case by simp
next
  case (Cons x ms)
  obtain st s' where r: "process_sample e x s = (st, s')" by (cases "process_sample e x s")
  have "log_buffer s' = log_buffer s"
    using process_sample_frame [of e x s] r by simp
  with Cons.IH [of s'] r show ?case
    by (cases st) simp_all
qed

lemma process_message_buffer:
  "log_buffer (snd (process_message e msg s)) =
     (if topic msg = ''telemetry-logs''
      then foldl (deque_append LOG_BUFFER_SIZE) (log_buffer s) (parse_otlp_logs e (msg_value msg))
      else log_buffer s)"
  by (simp add: process_message_def process_metrics_frame)

lemma process_message_bounded:
  "length (log_buffer s) \<le> LOG_BUFFER_SIZE \<Longrightarrow>
   length (log_buffer (snd (process_message e msg s))) \<le> LOG_BUFFER_SIZE"
  by (simp add: process_message_buffer foldl_deque_append_length)

lemma consume_bounded:
  "length (log_buffer s) \<le> LOG_BUFFER_SIZE \<Longrightarrow>
   length (log_buffer (snd (consume e msgs s))) \<le> LOG_BUFFER_SIZE"
proof (induction msgs arbitrary: s)
  case Nil
  then show ?case by simp
next
  case (Cons msg msgs)
  obtain st s' where r: "process_message e msg s = (st, s')"
    by (cases "process_message e msg s")
  have b: "length (log_buffer s') \<le> LOG_BUFFER_SIZE"
    using process_message_bounded [OF Cons.prems, of e msg] r by simp
  show ?case
    using Cons.IH [OF b] b r by (cases st) simp_all
qed

subsection \<open>Auxiliary facts: root cause analysis\<close>

lemma lower_error: "map lower_char ''error'' = ''error''"
  by (simp add: lower_char_def)

lemma ci_prefix_lower: "ci_prefix p s \<longleftrightarrow> prefix (map lower_char p) (map lower_char s)"
  by (induction p s rule: ci_prefix.induct) auto

lemma ci_contains_lower: "ci_contains p s \<longleftrightarrow> sublist (map lower_char p) (map lower_char s)"
  by (induction s) (auto simp: ci_prefix_lower sublist_Cons_right)

lemma spec_selected_eq: "spec_selected l = is_error_log l"
  using ci_contains_lower [of "''error''" "message l"]
  by (simp only: spec_selected_def is_error_log_def lower_def lower_error) auto

lemma show_errors_spec:
  "count < 5 \<Longrightarrow>
   show_errors ls shown count =
     map (\<lambda>l. ErrorLine (severity l) (message l))
       (take (5 - count) (dedup_by_message (filter (\<lambda>l. message l \<notin> shown) ls)))"
proof (induction ls arbitrary: shown count)
  case Nil
  then show ?case by simp
next
  case (Cons l ls)
  show ?case
  proof (cases "message l \<in> shown")
    case True
    then show ?thesis using Cons by simp
  next
    case False
    have ff: "filter (\<lambda>m. message m \<noteq> message l) (filter (\<lambda>l. message l \<notin> shown) ls) =
        filter (\<lambda>m. message m \<notin> insert (message l) shown) ls"
      by (auto intro: filter_cong)
    show ?thesis
    proof (cases "count + 1 \<ge> 5")
      case True
      with Cons.prems have "5 - count = Suc 0" by simp
      with False True show ?thesis by simp
    next
      case False': False
      then have c: "count + 1 < 5" by simp
      have t: "5 - count = Suc (5 - (count + 1))" using c by simp
      show ?thesis
        using False False' Cons.IH [OF c, of "insert (message l) shown"]
        by (simp only: show_errors.simps t filter.simps dedup_by_message.simps take_Suc_Cons ff
            list.map if_True if_False not_False_eq_True)
    qed
  qed
qed

lemma report_errors_spec:
  "report_errors buffer =
     (if spec_correlate buffer = [] then []
      else FoundLine (length (filter spec_selected buffer)) #
           map (\<lambda>(sev, msg). ErrorLine sev msg) (spec_correlate buffer))"
proof -
  have sel: "spec_selected = is_error_log"
    by (rule ext) (rule spec_selected_eq)
  let ?errs = "filter is_error_log buffer"
  have shown: "show_errors (rev ?errs) {} 0 =
      map (\<lambda>(sev, msg). ErrorLine sev msg) (spec_correlate buffer)"
    using show_errors_spec [of 0 "rev ?errs" "{}"]
    by (simp add: spec_correlate_def sel rev_filter o_def)
  have "dedup_by_message xs = [] \<longleftrightarrow> xs = []" for xs
    by (cases xs) simp_all
  then have empty: "spec_correlate buffer = [] \<longleftrightarrow> ?errs = []"
    by (simp add: spec_correlate_def sel flip: rev_filter)
  show ?thesis
    using shown empty by (simp add: report_errors_def Let_def sel)
qed

subsection \<open>RCA correlator\<close>

text \<open>
  Claim C2. What \<^verbatim>\<open>perform_rca\<close> prints after its header, on every call, is the
  correlation of the specification: the buffer scanned from the most recent record,
  keeping the records whose severity is ERROR or FATAL or whose message contains
  \<^verbatim>\<open>error\<close> in any case, one record per message text (the first met in the scan), at
  most five of them. For the buffer of the specification's example the result is the
  FATAL record \<^verbatim>\<open>oom\<close> followed by the ERROR record \<^verbatim>\<open>disk full\<close>.
\<close>

theorem rca_correlation:
  "report_errors buffer =
     (if spec_correlate buffer = [] then []
      else FoundLine (length (filter spec_selected buffer)) #
           map (\<lambda>(sev, msg). ErrorLine sev msg) (spec_correlate buffer))
   \<and> prefix (stdout s @ RcaHeader n v # report_errors (log_buffer s))
        (stdout (snd (perform_rca e n v s)))
   \<and> spec_correlate
        [log_of ''ERROR'' ''disk full'', log_of ''INFO'' ''ok'',
         log_of ''ERROR'' ''disk full'', log_of ''FATAL'' ''oom''] =
        [(''FATAL'', ''oom''), (''ERROR'', ''disk full'')]
   \<and> report_errors
        [log_of ''ERROR'' ''disk full'', log_of ''INFO'' ''ok'',
         log_of ''ERROR'' ''disk full'', log_of ''FATAL'' ''oom''] =
        [FoundLine 3, ErrorLine ''FATAL'' ''oom'', ErrorLine ''ERROR'' ''disk full'']"
proof -
  have out: "prefix (stdout s @ RcaHeader n v # report_errors (log_buffer s))
        (stdout (snd (perform_rca e n v s)))"
    by (simp add: perform_rca_def print_def Let_def prefix_def split: option.splits)
  have ex1: "spec_correlate
        [log_of ''ERROR'' ''disk full'', log_of ''INFO'' ''ok'',
         log_of ''ERROR'' ''disk full'', log_of ''FATAL'' ''oom''] =
        [(''FATAL'', ''oom''), (''ERROR'', ''disk full'')]"
    by code_simp
  have ex2: "report_errors
        [log_of ''ERROR'' ''disk full'', log_of ''INFO'' ''ok'',
         log_of ''ERROR'' ''disk full'', log_of ''FATAL'' ''oom''] =
        [FoundLine 3, ErrorLine ''FATAL'' ''oom'', ErrorLine ''ERROR'' ''disk full'']"
    by code_simp
  show ?thesis
    using report_errors_spec out ex1 ex2 by blast
qed

subsection \<open>Auxiliary facts: what the analysis changes\<close>

lemma perform_rca_send_calls:
  "send_calls (snd (perform_rca e n v s)) =
     send_calls s @
       (case generate_recommendation (time_time e (clock s)) (time_time e (clock s + 1)) n v of
          None \<Rightarrow> [] | Some r \<Rightarrow> [r])"
  by (simp add: perform_rca_def Let_def split: option.splits)

lemma perform_rca_clock:
  "clock (snd (perform_rca e n v s)) > clock s"
  by (simp add: perform_rca_def Let_def split: option.splits)

lemma perform_rca_stdout:
  "\<exists>rest. stdout (snd (perform_rca e n v s)) =
     stdout s @ RcaHeader n v # report_errors (log_buffer s) @ rest"
  by (simp add: perform_rca_def Let_def split: option.splits)

subsection \<open>The two pathways of a message\<close>

text \<open>
  Claim C10. A message of the metrics topic leaves the log buffer as it was. A message of
  the logs topic returns normally and changes nothing but the log buffer: no anomaly
  model is modified and the registry gets no new entry.
\<close>

theorem pathways_disjoint:
  "(topic msg = ''telemetry-metrics'' \<longrightarrow>
      log_buffer (snd (process_message e msg s)) = log_buffer s)
   \<and> (topic msg = ''telemetry-logs'' \<longrightarrow>
      fst (process_message e msg s) = Returned \<and>
      detectors (snd (process_message e msg s)) = detectors s \<and>
      dom (detectors (snd (process_message e msg s))) = dom (detectors s) \<and>
      snd (process_message e msg s) =
        s\<lparr>log_buffer := log_buffer (snd (process_message e msg s))\<rparr>)"
  by (simp add: process_message_def process_metrics_frame)

theorem pathways_disjoint_witness:
  "topic metrics_msg = ''telemetry-metrics''
   \<and> log_buffer (snd (process_message demo_env metrics_msg demo_engine)) = log_buffer demo_engine
   \<and> topic logs_msg = ''telemetry-logs''
   \<and> fst (process_message demo_env logs_msg demo_engine) = Returned
   \<and> detectors (snd (process_message demo_env logs_msg demo_engine)) = detectors demo_engine
   \<and> snd (process_message demo_env logs_msg demo_engine) =
       demo_engine\<lparr>log_buffer := log_buffer (snd (process_message demo_env logs_msg demo_engine))\<rparr>"
  using pathways_disjoint [of metrics_msg demo_env demo_engine]
    pathways_disjoint [of logs_msg demo_env demo_engine]
  by (simp add: metrics_msg_def logs_msg_def)

subsection \<open>Alert tiers\<close>

text \<open>
  Claim C4. For the score of a sample, the branch that \<^verbatim>\<open>process_message\<close> takes is the
  tier of the specification's classifier with the thresholds 0.8 and 0.5: ALERT exactly
  when the score is greater than 0.8, WARNING exactly when it is greater than 0.5 and at
  most 0.8, NORMAL otherwise, so a score equal to a threshold falls into the lower tier.
  The alert line and the analysis header are printed, the clock is read for a
  recommendation and a generated recommendation is handed to the producer exactly when
  the tier is ALERT; on WARNING only the warning line is printed, on NORMAL nothing, and
  in both cases the sample is processed without any further action. The threshold 0.8
  is the float of that literal.
\<close>

theorem alert_tiers:
  "(let sc = score_one e (get_detector e (detectors s) n) v;
        t = classify sc float_0_8 0.5;
        r = process_sample e (n, v) s;
        out = drop (length (stdout s)) (stdout (snd r))
    in (t = ALERT \<longleftrightarrow> float_0_8 < sc)
     \<and> (t = WARNING \<longleftrightarrow> 0.5 < sc \<and> sc \<le> float_0_8)
     \<and> (t = NORMAL \<longleftrightarrow> sc \<le> 0.5)
     \<and> stdout (snd r) = stdout s @ out
     \<and> (AlertLine n v sc \<in> set out \<longleftrightarrow> t = ALERT)
     \<and> (RcaHeader n v \<in> set out \<longleftrightarrow> t = ALERT)
     \<and> (clock s < clock (snd r) \<longleftrightarrow> t = ALERT)
     \<and> send_calls (snd r) =
         send_calls s @
           (if t = ALERT
            then (case generate_recommendation (time_time e (clock s))
                         (time_time e (clock s + 1)) n v of
                    None \<Rightarrow> [] | Some rec \<Rightarrow> [rec])
            else [])
     \<and> (t = WARNING \<longrightarrow> out = [WarnLine n v sc])
     \<and> (t = NORMAL \<longrightarrow> out = [])
     \<and> (t \<noteq> ALERT \<longrightarrow> fst r = Returned \<and> flush_calls (snd r) = flush_calls s)
     \<and> \<bar>float_0_8 - 0.8\<bar> \<le> 1 / 2 ^ 54)"
proof -
  define sc where "sc = score_one e (get_detector e (detectors s) n) v"
  define s1 where "s1 = s\<lparr>detectors := (detectors s)(n \<mapsto> learn_one e (get_detector e (detectors s) n) v),
                score_log := score_log s @ [(n, sc)]\<rparr>"
  have f8: "(0.5::real) < float_0_8" by (simp add: float_0_8_def)
  have near: "\<bar>float_0_8 - 0.8\<bar> \<le> 1 / 2 ^ 54" by (simp add: float_0_8_def)
  consider (alert) "float_0_8 < sc" | (warn) "0.5 < sc" "sc \<le> float_0_8" | (normal) "sc \<le> 0.5"
    by linarith
  then show ?thesis
  proof cases
    case alert
    then have r: "process_sample e (n, v) s = perform_rca e n v (print [AlertLine n v sc] s1)"
      by (simp add: process_sample_def Let_def sc_def s1_def)
    obtain rest where out: "stdout (snd (perform_rca e n v (print [AlertLine n v sc] s1))) =
        stdout s @ AlertLine n v sc # RcaHeader n v # report_errors (log_buffer s) @ rest"
      using perform_rca_stdout [of e n v "print [AlertLine n v sc] s1"]
      by (auto simp: s1_def)
    have t: "classify sc float_0_8 0.5 = ALERT"
      using alert by (simp add: classify_def)
    show ?thesis
      using alert f8 near perform_rca_clock [of "print [AlertLine n v sc] s1" e n v]
      unfolding Let_def r sc_def [symmetric] t
      by (simp add: out perform_rca_send_calls) (simp add: s1_def)
  next
    case warn
    then show ?thesis
      using near by (simp add: process_sample_def Let_def sc_def classify_def)
  next
    case normal
    then show ?thesis
      using f8 near by (simp add: process_sample_def Let_def sc_def classify_def)
  qed
qed


theorem alert_tiers_witness:
  "classify (score_one demo_env (get_detector demo_env (detectors demo_engine) ''cpu'') 3)
     float_0_8 0.5 = WARNING
   \<and> drop (length (stdout demo_engine))
        (stdout (snd (process_sample demo_env (''cpu'', 3) demo_engine))) =
       [WarnLine ''cpu'' 3 (score_one demo_env (get_detector demo_env (detectors demo_engine) ''cpu'') 3)]
   \<and> classify (score_one demo_env (get_detector demo_env (detectors demo_engine) ''cpu'') 1)
     float_0_8 0.5 = NORMAL
   \<and> drop (length (stdout demo_engine))
        (stdout (snd (process_sample demo_env (''cpu'', 1) demo_engine))) = []
   \<and> fst (process_sample demo_env (''cpu'', 1) demo_engine) = Returned
   \<and> classify (score_one demo_env (get_detector demo_env (detectors demo_engine) ''cpu'') 50)
     float_0_8 0.5 = ALERT
   \<and> RcaHeader ''cpu'' 50 \<in> set (drop (length (stdout demo_engine))
        (stdout (snd (process_sample demo_env (''cpu'', 50) demo_engine))))"
proof -
  have sc: "score_one demo_env (get_detector demo_env (detectors demo_engine) ''cpu'') v =
      spike_score [1] v" for v
    by (simp add: demo_env_def stub_env_def get_detector_def demo_engine_def)
  have w: "classify (spike_score [1] 3) float_0_8 0.5 = WARNING"
    by (simp add: classify_def spike_score_def float_0_8_def)
  have n: "classify (spike_score [1] 1) float_0_8 0.5 = NORMAL"
    by (simp add: classify_def spike_score_def float_0_8_def)
  have a: "classify (spike_score [1] 50) float_0_8 0.5 = ALERT"
    by (simp add: classify_def spike_score_def float_0_8_def)
  show ?thesis
    using alert_tiers [of demo_env demo_engine "''cpu''" 3]
      alert_tiers [of demo_env demo_engine "''cpu''" 1]
      alert_tiers [of demo_env demo_engine "''cpu''" 50]
    unfolding Let_def sc w n a
    by simp
qed

subsection \<open>Auxiliary facts: the buffer of the engine\<close>

lemma process_message_last:
  "length (log_buffer s) \<le> LOG_BUFFER_SIZE \<Longrightarrow>
   log_buffer (snd (process_message e msg s)) =
     drop (length (log_buffer s @ log_records e [msg]) - LOG_BUFFER_SIZE)
       (log_buffer s @ log_records e [msg])"
  by (simp add: process_message_buffer foldl_deque_append log_records_def)

lemma consume_last:
  "length (log_buffer s) \<le> LOG_BUFFER_SIZE \<Longrightarrow> fst (consume e msgs s) = Returned \<Longrightarrow>
   log_buffer (snd (consume e msgs s)) =
     drop (length (log_buffer s @ log_records e msgs) - LOG_BUFFER_SIZE)
       (log_buffer s @ log_records e msgs)"
proof (induction msgs arbitrary: s)
  case Nil
  then show ?case by (simp add: log_records_def)
next
  case (Cons msg msgs)
  obtain st s' where r: "process_message e msg s = (st, s')"
    by (cases "process_message e msg s")
  have st: "st = Returned"
    using Cons.prems(2) r by (cases st) simp_all
  have rest: "fst (consume e msgs s') = Returned"
    using Cons.prems(2) r st by simp
  let ?one = "log_records e [msg]"
  have b: "log_buffer s' =
      drop (length (log_buffer s @ ?one) - LOG_BUFFER_SIZE) (log_buffer s @ ?one)"
    using process_message_last [OF Cons.prems(1), of e msg] r by simp
  have len: "length (log_buffer s') \<le> LOG_BUFFER_SIZE"
    using process_message_bounded [OF Cons.prems(1), of e msg] r by simp
  have split: "log_records e (msg # msgs) = ?one @ log_records e msgs"
    by (simp add: log_records_def)
  have "log_buffer (snd (consume e (msg # msgs) s)) = log_buffer (snd (consume e msgs s'))"
    using r st by simp
  also have "\<dots> = drop (length (log_buffer s' @ log_records e msgs) - LOG_BUFFER_SIZE)
       (log_buffer s' @ log_records e msgs)"
    by (rule Cons.IH [OF len rest])
  also have "\<dots> = drop (length ((log_buffer s @ ?one) @ log_records e msgs) - LOG_BUFFER_SIZE)
       ((log_buffer s @ ?one) @ log_records e msgs)"
    unfolding b by (rule drop_last_twice)
  finally show ?case
    by (simp only: split append_assoc)
qed

subsection \<open>Log correlation buffer\<close>

text \<open>
  Claim C5. A buffer of capacity \<open>B\<close> never holds more than \<open>B\<close> records, whatever is
  appended: an append to a full buffer gives the old records without the oldest, followed
  by the new one; after any appends the buffer is the last \<open>B\<close> records seen, in arrival
  order, so inserting \<open>B + k\<close> records leaves the last \<open>B\<close>. The engine's buffer is such
  a buffer of capacity 1000, empty at the start: a logs message appends each of its
  records to it, any other message leaves it as it is, so that it never holds more than
  1000 records and, after any sequence of messages, holds exactly the last 1000 log
  records that arrived, in arrival order.
\<close>

theorem log_buffer_bounded:
  "(length d \<le> B \<longrightarrow>
       length (deque_append B d x) \<le> B
     \<and> (length d = B \<and> 0 < B \<longrightarrow> deque_append B d x = tl d @ [x])
     \<and> (length d < B \<longrightarrow> deque_append B d x = d @ [x])
     \<and> length (foldl (deque_append B) d xs) \<le> B
     \<and> foldl (deque_append B) d xs = drop (length (d @ xs) - B) (d @ xs))
   \<and> (length (ys :: 'a list) = B + k \<longrightarrow> foldl (deque_append B) [] ys = drop k ys)
   \<and> LOG_BUFFER_SIZE = 1000
   \<and> log_buffer (init_engine :: 'm engine) = []
   \<and> (topic msg = ''telemetry-logs'' \<longrightarrow>
        log_buffer (snd (process_message e msg s)) =
          foldl (deque_append LOG_BUFFER_SIZE) (log_buffer s) (parse_otlp_logs e (msg_value msg)))
   \<and> (topic msg \<noteq> ''telemetry-logs'' \<longrightarrow>
        log_buffer (snd (process_message e msg s)) = log_buffer s)
   \<and> (length (log_buffer s) \<le> LOG_BUFFER_SIZE \<longrightarrow>
        length (log_buffer (snd (process_message e msg s))) \<le> LOG_BUFFER_SIZE
      \<and> log_buffer (snd (process_message e msg s)) =
          drop (length (log_buffer s @ log_records e [msg]) - LOG_BUFFER_SIZE)
            (log_buffer s @ log_records e [msg])
      \<and> length (log_buffer (snd (consume e msgs s))) \<le> LOG_BUFFER_SIZE
      \<and> (fst (consume e msgs s) = Returned \<longrightarrow>
           log_buffer (snd (consume e msgs s)) =
             drop (length (log_buffer s @ log_records e msgs) - LOG_BUFFER_SIZE)
               (log_buffer s @ log_records e msgs)))
   \<and> length (log_buffer (snd (consume e msgs (init_engine :: 'm engine)))) \<le> LOG_BUFFER_SIZE
   \<and> (fst (consume e msgs (init_engine :: 'm engine)) = Returned \<longrightarrow>
        log_buffer (snd (consume e msgs (init_engine :: 'm engine))) =
          drop (length (log_records e msgs) - LOG_BUFFER_SIZE) (log_records e msgs))"
proof -
  have l1: "length (deque_append B d x) \<le> B" if "length d \<le> B"
    using that by (rule deque_append_length)
  have l2: "length d = B \<and> 0 < B \<longrightarrow> deque_append B d x = tl d @ [x]"
    by (cases d) (auto simp: deque_append_def Let_def)
  have l3: "length d < B \<longrightarrow> deque_append B d x = d @ [x]"
    by (auto simp: deque_append_def Let_def)
  have l4: "length (foldl (deque_append B) d xs) \<le> B" if "length d \<le> B"
    using that by (rule foldl_deque_append_length)
  have l5: "foldl (deque_append B) d xs = drop (length (d @ xs) - B) (d @ xs)" if "length d \<le> B"
    using that by (rule foldl_deque_append)
  have l6: "length ys = B + k \<longrightarrow> foldl (deque_append B) [] ys = drop k ys"
    using foldl_deque_append [of "[]" B ys] by simp
  have size: "LOG_BUFFER_SIZE = 1000"
    by (simp add: LOG_BUFFER_SIZE_def)
  have init: "log_buffer (init_engine :: 'm engine) = []"
    by (simp add: init_engine_def)
  have e1: "topic msg = ''telemetry-logs'' \<longrightarrow>
        log_buffer (snd (process_message e msg s)) =
          foldl (deque_append LOG_BUFFER_SIZE) (log_buffer s) (parse_otlp_logs e (msg_value msg))"
    by (simp add: process_message_buffer)
  have e2: "topic msg \<noteq> ''telemetry-logs'' \<longrightarrow>
        log_buffer (snd (process_message e msg s)) = log_buffer s"
    by (simp add: process_message_buffer)
  have e3: "length (log_buffer (snd (process_message e msg s))) \<le> LOG_BUFFER_SIZE"
    if "length (log_buffer s) \<le> LOG_BUFFER_SIZE"
    using that by (rule process_message_bounded)
  have e4: "log_buffer (snd (process_message e msg s)) =
          drop (length (log_buffer s @ log_records e [msg]) - LOG_BUFFER_SIZE)
            (log_buffer s @ log_records e [msg])"
    if "length (log_buffer s) \<le> LOG_BUFFER_SIZE"
    using that by (rule process_message_last)
  have e5: "length (log_buffer (snd (consume e msgs s))) \<le> LOG_BUFFER_SIZE"
    if "length (log_buffer s) \<le> LOG_BUFFER_SIZE"
    using that by (rule consume_bounded)
  have e6: "log_buffer (snd (consume e msgs s)) =
             drop (length (log_buffer s @ log_records e msgs) - LOG_BUFFER_SIZE)
               (log_buffer s @ log_records e msgs)"
    if "length (log_buffer s) \<le> LOG_BUFFER_SIZE" "fst (consume e msgs s) = Returned"
    using that by (rule consume_last)
  have i0: "length (log_buffer (init_engine :: 'm engine)) \<le> LOG_BUFFER_SIZE"
    by (simp add: init)
  have e7: "length (log_buffer (snd (consume e msgs (init_engine :: 'm engine)))) \<le> LOG_BUFFER_SIZE"
    using i0 by (rule consume_bounded)
  have e8: "log_buffer (snd (consume e msgs (init_engine :: 'm engine))) =
          drop (length (log_records e msgs) - LOG_BUFFER_SIZE) (log_records e msgs)"
    if "fst (consume e msgs (init_engine :: 'm engine)) = Returned"
    using consume_last [OF i0 that] by (simp add: init)
  show ?thesis
    using l1 l2 l3 l4 l5 l6 size init e1 e2 e3 e4 e5 e6 e7 e8 by blast
qed

theorem log_buffer_bounded_witness:
  "length [1, 2, 3 :: nat] \<le> 3
   \<and> deque_append 3 [1, 2, 3 :: nat] 4 = [2, 3, 4]
   \<and> foldl (deque_append 3) [1, 2, 3 :: nat] [4, 5] = [3, 4, 5]
   \<and> foldl (deque_append 3) [] [1, 2, 3, 4, 5 :: nat] = [3, 4, 5]
   \<and> topic logs_msg = ''telemetry-logs''
   \<and> length (log_buffer full_engine) = 1000
   \<and> log_buffer (snd (process_message demo_env logs_msg full_engine)) =
       replicate 999 (log_of ''INFO'' ''ok'') @ [log_of ''FATAL'' ''oom'']
   \<and> fst (consume flood_env [logs_msg, logs_msg] init_engine) = Returned
   \<and> log_buffer (snd (consume flood_env [logs_msg, logs_msg] init_engine)) =
       replicate 999 (log_of ''INFO'' ''ok'') @ [log_of ''FATAL'' ''oom'']"
proof -
  note list = log_buffer_bounded [where d = "[1, 2, 3 :: nat]" and B = 3 and x = 4
      and xs = "[4, 5]" and ys = "[1, 2, 3, 4, 5 :: nat]" and k = 2
      and e = demo_env and msg = logs_msg and s = full_engine and msgs = "[]"]
  note flood = log_buffer_bounded [where d = "[1, 2, 3 :: nat]" and B = 3 and x = 4
      and xs = "[4, 5]" and ys = "[1, 2, 3, 4, 5 :: nat]" and k = 2
      and e = flood_env and msg = logs_msg and s = full_engine and msgs = "[logs_msg, logs_msg]"]
  have topic: "topic logs_msg = ''telemetry-logs''"
    by (simp add: logs_msg_def)
  have full: "log_buffer full_engine = replicate 1000 (log_of ''INFO'' ''ok'')"
    by (simp add: full_engine_def)
  have one: "log_records demo_env [logs_msg] = [log_of ''FATAL'' ''oom'']"
    by (simp add: log_records_def logs_msg_def demo_env_def stub_env_def)
  have two: "log_records flood_env [logs_msg, logs_msg] =
      (replicate 1000 (log_of ''INFO'' ''ok'') @ [log_of ''FATAL'' ''oom'']) @
      (replicate 1000 (log_of ''INFO'' ''ok'') @ [log_of ''FATAL'' ''oom''])"
    by (simp add: log_records_def logs_msg_def flood_env_def stub_env_def)
  have ret: "fst (consume flood_env [logs_msg, logs_msg] init_engine) = Returned"
    by (simp add: process_message_def logs_msg_def)
  have a: "deque_append 3 [1, 2, 3 :: nat] 4 = [2, 3, 4]
     \<and> foldl (deque_append 3) [1, 2, 3 :: nat] [4, 5] = [3, 4, 5]
     \<and> foldl (deque_append 3) [] [1, 2, 3, 4, 5 :: nat] = [3, 4, 5]"
    using list by (simp add: deque_append_def)
  have b: "log_buffer (snd (process_message demo_env logs_msg full_engine)) =
       replicate 999 (log_of ''INFO'' ''ok'') @ [log_of ''FATAL'' ''oom'']"
  proof -
    have "log_buffer (snd (process_message demo_env logs_msg full_engine)) =
        drop (length (log_buffer full_engine @ log_records demo_env [logs_msg]) - LOG_BUFFER_SIZE)
          (log_buffer full_engine @ log_records demo_env [logs_msg])"
      using list full by (simp del: foldl_Cons)
    then show ?thesis
      by (simp add: full one LOG_BUFFER_SIZE_def)
  qed
  have c: "log_buffer (snd (consume flood_env [logs_msg, logs_msg] init_engine)) =
       replicate 999 (log_of ''INFO'' ''ok'') @ [log_of ''FATAL'' ''oom'']"
  proof -
    have "log_buffer (snd (consume flood_env [logs_msg, logs_msg] init_engine)) =
        drop (length (log_records flood_env [logs_msg, logs_msg]) - LOG_BUFFER_SIZE)
          (log_records flood_env [logs_msg, logs_msg])"
      using flood ret by (simp del: consume.simps)
    then show ?thesis
      by (simp add: two LOG_BUFFER_SIZE_def)
  qed
  have len3: "length [1, 2, 3 :: nat] \<le> 3"
    by simp
  have len: "length (log_buffer full_engine) = 1000"
    by (simp add: full)
  show ?thesis
    using len3 a topic len b ret c by blast
qed

subsection \<open>Auxiliary facts: status of a sample\<close>

lemma perform_rca_status:
  "fst (perform_rca e n v s) =
     (case generate_recommendation (time_time e (clock s)) (time_time e (clock s + 1)) n v of
        None \<Rightarrow> Returned
      | Some r \<Rightarrow>
          if send_raises e (length (send_calls s)) then Raised SendError
          else if flush_raises e (flush_calls s) then Raised FlushError
          else Returned)"
  by (simp add: perform_rca_def Let_def split: option.splits)

lemma perform_rca_raised_stdout:
  "fst (perform_rca e n v s) \<noteq> Returned \<Longrightarrow>
   \<exists>rc. generate_recommendation (time_time e (clock s)) (time_time e (clock s + 1)) n v = Some rc
     \<and> stdout (snd (perform_rca e n v s)) =
         stdout s @ RcaHeader n v # report_errors (log_buffer s) @ [RecLine (title rc)]"
  by (auto simp add: perform_rca_def Let_def split: option.splits if_splits)

lemma process_sample_status:
  "fst (process_sample e (n, v) s) =
     (if float_0_8 < score_one e (get_detector e (detectors s) n) v
      then fst (perform_rca e n v
             (print [AlertLine n v (score_one e (get_detector e (detectors s) n) v)]
                (s\<lparr>detectors := (detectors s)(n \<mapsto> learn_one e (get_detector e (detectors s) n) v),
                   score_log := score_log s @ [(n, score_one e (get_detector e (detectors s) n) v)]\<rparr>)))
      else Returned)"
  by (simp add: process_sample_def Let_def)

subsection \<open>Sink failure\<close>

text \<open>
  Claim C1, as stated: when publishing a recommendation fails, the failure is only
  logged and processing continues, no exception leaving \<^verbatim>\<open>process_message\<close>. With a
  producer whose \<^verbatim>\<open>send\<close> raises, a metrics message with the samples 50 and 3 for
  \<^verbatim>\<open>cpu\<close> ends in that exception at the first sample: the second sample is never
  scored, the last line printed is the one before \<^verbatim>\<open>send\<close>, and the consumer loop
  stops before the next message.
\<close>

theorem sink_failure_counterexample:
  "parse_otlp_metrics down_env (msg_value metrics_msg) = [(''cpu'', 50), (''cpu'', 3)]
   \<and> fst (process_message down_env metrics_msg demo_engine) = Raised SendError
   \<and> score_log (snd (process_message down_env metrics_msg demo_engine)) = [(''cpu'', 0.9)]
   \<and> stdout (snd (process_message down_env metrics_msg demo_engine)) =
       [AlertLine ''cpu'' 50 0.9, RcaHeader ''cpu'' 50, FoundLine 1,
        ErrorLine ''ERROR'' ''disk full'', RecLine ''Optimize Worker Connections'']
   \<and> fst (consume down_env [metrics_msg, logs_msg] demo_engine) = Raised SendError
   \<and> log_buffer (snd (consume down_env [metrics_msg, logs_msg] demo_engine)) =
       log_buffer demo_engine"
  by code_simp


text \<open>
  Claim C1, amended. For every sample, if publishing a generated recommendation fails,
  that is if \<^verbatim>\<open>producer.send\<close> or \<^verbatim>\<open>producer.flush\<close> raises, the publish is not
  retried: the recommendation has been passed to \<^verbatim>\<open>send\<close> once. The failure is
  neither caught nor logged: nothing is printed after the line that announces the
  recommendation, and the exception leaves \<^verbatim>\<open>perform_rca\<close>, \<^verbatim>\<open>process_message\<close> and
  the consumer loop, so that the remaining samples of the message and the messages after
  it are not processed.
\<close>

theorem sink_failure_propagates:
  "(let sc = score_one e (get_detector e (detectors s) n) v;
        rec = generate_recommendation (time_time e (clock s)) (time_time e (clock s + 1)) n v;
        r = process_sample e (n, v) s
    in (fst r = Raised SendError \<longleftrightarrow>
          float_0_8 < sc \<and> rec \<noteq> None \<and> send_raises e (length (send_calls s)))
     \<and> (fst r = Raised FlushError \<longleftrightarrow>
          float_0_8 < sc \<and> rec \<noteq> None \<and> \<not> send_raises e (length (send_calls s)) \<and>
          flush_raises e (flush_calls s))
     \<and> length (send_calls (snd r)) \<le> length (send_calls s) + 1
     \<and> (fst r = Raised SendError \<or> fst r = Raised FlushError \<longrightarrow>
          (\<exists>rc. rec = Some rc \<and> send_calls (snd r) = send_calls s @ [rc] \<and>
                stdout (snd r) =
                  stdout s @ AlertLine n v sc # RcaHeader n v # report_errors (log_buffer s) @
                    [RecLine (title rc)]) \<and>
          process_metrics e ((n, v) # rest) s = r))
   \<and> (fst (process_metrics e ms s) = Raised x \<and> topic msg = ''telemetry-metrics'' \<and>
        parse_otlp_metrics e (msg_value msg) = ms \<longrightarrow>
        process_message e msg s = process_metrics e ms s \<and>
        consume e (msg # msgs) s = process_metrics e ms s)"
proof -
  define sc where "sc = score_one e (get_detector e (detectors s) n) v"
  define rec where
    "rec = generate_recommendation (time_time e (clock s)) (time_time e (clock s + 1)) n v"
  define s1 where
    "s1 = print [AlertLine n v sc]
       (s\<lparr>detectors := (detectors s)(n \<mapsto> learn_one e (get_detector e (detectors s) n) v),
          score_log := score_log s @ [(n, sc)]\<rparr>)"
  define r where "r = process_sample e (n, v) s"
  have s1_simps: "clock s1 = clock s" "send_calls s1 = send_calls s"
    "flush_calls s1 = flush_calls s" "stdout s1 = stdout s @ [AlertLine n v sc]"
    "log_buffer s1 = log_buffer s"
    by (simp_all add: s1_def)
  have status: "fst r = (if float_0_8 < sc then fst (perform_rca e n v s1) else Returned)"
    by (simp add: r_def process_sample_status sc_def s1_def)
  have rca: "fst (perform_rca e n v s1) =
     (case rec of None \<Rightarrow> Returned
      | Some rc \<Rightarrow>
          if send_raises e (length (send_calls s)) then Raised SendError
          else if flush_raises e (flush_calls s) then Raised FlushError
          else Returned)"
    by (simp add: perform_rca_status s1_simps rec_def)
  have a: "fst r = Raised SendError \<longleftrightarrow>
      float_0_8 < sc \<and> rec \<noteq> None \<and> send_raises e (length (send_calls s))"
    by (auto simp: status rca split: option.splits)
  have b: "fst r = Raised FlushError \<longleftrightarrow>
      float_0_8 < sc \<and> rec \<noteq> None \<and> \<not> send_raises e (length (send_calls s)) \<and>
      flush_raises e (flush_calls s)"
    by (auto simp: status rca split: option.splits)
  have c: "length (send_calls (snd r)) \<le> length (send_calls s) + 1"
    by (simp add: r_def process_sample_def Let_def perform_rca_send_calls split: option.splits)
  have d: "\<exists>rc. rec = Some rc \<and> send_calls (snd r) = send_calls s @ [rc] \<and>
                stdout (snd r) =
                  stdout s @ AlertLine n v sc # RcaHeader n v # report_errors (log_buffer s) @
                    [RecLine (title rc)]" if "fst r \<noteq> Returned"
  proof -
    from that status have alert: "float_0_8 < sc" and ne: "fst (perform_rca e n v s1) \<noteq> Returned"
      by (auto split: if_splits)
    have r_eq: "r = perform_rca e n v s1"
      using alert by (simp add: r_def process_sample_def Let_def sc_def s1_def)
    obtain rc where rc: "rec = Some rc"
      and out: "stdout (snd (perform_rca e n v s1)) =
         stdout s1 @ RcaHeader n v # report_errors (log_buffer s1) @ [RecLine (title rc)]"
      using perform_rca_raised_stdout [OF ne] by (auto simp: rec_def s1_simps)
    have "send_calls (snd r) = send_calls s @ [rc]"
      using rc unfolding rec_def by (simp add: r_eq perform_rca_send_calls s1_simps)
    with rc out show ?thesis
      by (simp add: r_eq s1_simps)
  qed
  have e': "process_metrics e ((n, v) # rest) s = r" if "fst r \<noteq> Returned"
  proof -
    obtain st s' where p: "process_sample e (n, v) s = (st, s')"
      by (cases "process_sample e (n, v) s")
    with that have "st \<noteq> Returned" by (simp add: r_def)
    then show ?thesis using p by (cases st) (simp_all add: r_def)
  qed
  have ne: "fst r \<noteq> Returned" if "fst r = Raised SendError \<or> fst r = Raised FlushError"
    using that by auto
  have f: "process_message e msg s = process_metrics e ms s \<and>
        consume e (msg # msgs) s = process_metrics e ms s"
    if "fst (process_metrics e ms s) = Raised x" "topic msg = ''telemetry-metrics''"
      "parse_otlp_metrics e (msg_value msg) = ms"
  proof -
    have pm: "process_message e msg s = process_metrics e ms s"
      using that by (simp add: process_message_def)
    obtain st s' where p: "process_metrics e ms s = (st, s')"
      by (cases "process_metrics e ms s")
    with that have "st = Raised x" by simp
    then show ?thesis using p pm by simp
  qed
  show ?thesis
    unfolding Let_def sc_def [symmetric] rec_def [symmetric] r_def [symmetric]
    using a b c d e' ne f by blast
qed

theorem sink_failure_propagates_witness:
  "fst (process_sample down_env (''cpu'', 50) demo_engine) = Raised SendError
   \<and> length (send_calls (snd (process_sample down_env (''cpu'', 50) demo_engine))) = 1
   \<and> process_metrics down_env [(''cpu'', 50), (''cpu'', 3)] demo_engine =
       process_sample down_env (''cpu'', 50) demo_engine
   \<and> topic metrics_msg = ''telemetry-metrics''
   \<and> parse_otlp_metrics down_env (msg_value metrics_msg) = [(''cpu'', 50), (''cpu'', 3)]
   \<and> process_message down_env metrics_msg demo_engine =
       process_metrics down_env [(''cpu'', 50), (''cpu'', 3)] demo_engine
   \<and> consume down_env [metrics_msg, logs_msg] demo_engine =
       process_metrics down_env [(''cpu'', 50), (''cpu'', 3)] demo_engine"
proof -
  let ?ms = "[(''cpu'', 50), (''cpu'', 3 :: real)]"
  note down = sink_failure_propagates [where e = down_env and s = demo_engine and n = "''cpu''"
      and v = 50 and rest = "[(''cpu'', 3)]" and ms = ?ms and msg = metrics_msg
      and msgs = "[logs_msg]" and x = SendError, unfolded Let_def]
  have raised: "fst (process_sample down_env (''cpu'', 50) demo_engine) = Raised SendError"
    by code_simp
  have topic: "topic metrics_msg = ''telemetry-metrics''"
    by (simp add: metrics_msg_def)
  have parsed: "parse_otlp_metrics down_env (msg_value metrics_msg) = ?ms"
    by (simp add: down_env_def stub_env_def)
  have sent: "length (send_calls demo_engine) = 0"
    by (simp add: demo_engine_def init_engine_def)
  have loop: "process_metrics down_env ?ms demo_engine =
      process_sample down_env (''cpu'', 50) demo_engine"
    using down raised by (simp del: process_metrics.simps consume.simps)
  have one: "length (send_calls (snd (process_sample down_env (''cpu'', 50) demo_engine))) = 1"
    using down raised sent by (auto simp del: process_metrics.simps consume.simps)
  have msg: "process_message down_env metrics_msg demo_engine =
       process_metrics down_env ?ms demo_engine
     \<and> consume down_env [metrics_msg, logs_msg] demo_engine =
       process_metrics down_env ?ms demo_engine"
    using down raised topic parsed loop by (simp del: process_metrics.simps consume.simps)
  show ?thesis
    using raised one loop topic parsed msg by (simp del: process_metrics.simps consume.simps)
qed

subsection \<open>Auxiliary facts: the anomaly scorer\<close>

lemma path_mass_nonneg: "0 \<le> path_mass t v d"
  by (induction t arbitrary: d) simp_all

lemma path_mass_bound:
  "(\<forall>r \<in> set (ref_counts t). r \<le> W) \<Longrightarrow> depth_of t \<le> h \<Longrightarrow>
   path_mass t v d \<le> real W * (\<Sum>i\<le>h. 1 / 2 ^ (d + i))"
proof (induction t arbitrary: d h)
  case (Leaf r c)
  then have rW: "real r \<le> real W" by simp
  have "(1::real) / 2 ^ d \<le> (\<Sum>i\<le>h. 1 / 2 ^ (d + i))"
  proof -
    have "(\<Sum>i\<in>{0}. (1::real) / 2 ^ (d + i)) \<le> (\<Sum>i\<le>h. 1 / 2 ^ (d + i))"
      by (rule sum_mono2) auto
    then show ?thesis by simp
  qed
  then have "real r * (1 / 2 ^ d) \<le> real W * (\<Sum>i\<le>h. 1 / 2 ^ (d + i))"
    using rW by (intro mult_mono) auto
  then show ?case by simp
next
  case (Node p r c lt rt)
  from Node.prems obtain h' where h: "h = Suc h'"
    by (cases h) auto
  let ?child = "if v < p then lt else rt"
  have rW: "real r \<le> real W" using Node.prems by simp
  have child: "path_mass ?child v (Suc d) \<le> real W * (\<Sum>i\<le>h'. 1 / 2 ^ (Suc d + i))"
  proof (cases "v < p")
    case True
    have "path_mass lt v (Suc d) \<le> real W * (\<Sum>i\<le>h'. 1 / 2 ^ (Suc d + i))"
      using Node.prems h by (intro Node.IH(1)) auto
    with True show ?thesis by simp
  next
    case False
    have "path_mass rt v (Suc d) \<le> real W * (\<Sum>i\<le>h'. 1 / 2 ^ (Suc d + i))"
      using Node.prems h by (intro Node.IH(2)) auto
    with False show ?thesis by simp
  qed
  have "path_mass (Node p r c lt rt) v d = real r / 2 ^ d + path_mass ?child v (Suc d)"
    by simp
  also have "\<dots> \<le> real W / 2 ^ d + real W * (\<Sum>i\<le>h'. 1 / 2 ^ (Suc d + i))"
    using rW child by (intro add_mono divide_right_mono) auto
  also have "\<dots> = real W * (\<Sum>i\<le>h. 1 / 2 ^ (d + i))"
  proof -
    have "(\<Sum>i\<le>Suc h'. (1::real) / 2 ^ (d + i)) =
        1 / 2 ^ (d + 0) + (\<Sum>i\<le>h'. 1 / 2 ^ (d + Suc i))"
      by (rule sum.atMost_Suc_shift)
    also have "\<dots> = 1 / 2 ^ d + (\<Sum>i\<le>h'. 1 / 2 ^ (Suc d + i))"
      by simp
    finally show ?thesis
      unfolding h by (simp only: distrib_left times_divide_eq_right mult_1_right)
  qed
  finally show ?case .
qed

lemma path_mass_max:
  "(\<forall>r \<in> set (ref_counts t). r \<le> W) \<Longrightarrow> depth_of t \<le> h \<Longrightarrow>
   path_mass t v 0 \<le> max_mass h W"
  using path_mass_bound [of t W h v 0] by (simp add: max_mass_def)

lemma max_mass_pos: "0 < w \<Longrightarrow> 0 < max_mass h w"
proof -
  assume w: "0 < w"
  have "(\<Sum>i\<in>{0}. (1::real) / 2 ^ i) \<le> (\<Sum>i\<le>h. 1 / 2 ^ i)"
    by (rule sum_mono2) auto
  then have "(1::real) \<le> (\<Sum>i\<le>h. 1 / 2 ^ i)" by simp
  then show ?thesis using w by (simp add: max_mass_def)
qed

lemma sum_list_bound:
  "(\<forall>x \<in> set xs. 0 \<le> f x \<and> f x \<le> (B::real)) \<Longrightarrow>
   0 \<le> sum_list (map f xs) \<and> sum_list (map f xs) \<le> real (length xs) * B"
  by (induction xs) (auto simp: algebra_simps)

lemma learn_tree_counts:
  "ref_counts (learn_tree v t) = ref_counts t"
  "depth_of (learn_tree v t) = depth_of t"
  by (induction t) auto

lemma learn_tree_cur:
  "(\<forall>c \<in> set (cur_counts t). c \<le> C) \<Longrightarrow> (\<forall>c \<in> set (cur_counts (learn_tree v t)). c \<le> Suc C)"
  by (induction t) (auto intro: le_SucI)

lemma rotate_tree_counts:
  "ref_counts (rotate_tree t) = cur_counts t"
  "depth_of (rotate_tree t) = depth_of t"
  "set (cur_counts (rotate_tree t)) = {0}"
  by (induction t) auto

lemma build_tree_props:
  "depth_of (fst (build_tree draw h lo hi i)) = h \<and>
   set (ref_counts (fst (build_tree draw h lo hi i))) = {0} \<and>
   set (cur_counts (fst (build_tree draw h lo hi i))) = {0}"
proof (induction h arbitrary: lo hi i)
  case 0
  then show ?case by simp
next
  case (Suc h)
  let ?p = "lo + draw i * (hi - lo)"
  obtain l j where l: "build_tree draw h lo ?p (Suc i) = (l, j)"
    by (cases "build_tree draw h lo ?p (Suc i)")
  obtain r k where r: "build_tree draw h ?p hi j = (r, k)"
    by (cases "build_tree draw h ?p hi j")
  have "build_tree draw (Suc h) lo hi i = (Node ?p 0 0 l r, k)"
    by (simp add: Let_def l r)
  then show ?case
    using Suc [of lo ?p "Suc i"] Suc [of ?p hi j] l r by auto
qed

lemma build_trees_props:
  "length (build_trees draw n h lo hi i) = n \<and>
   (\<forall>t \<in> set (build_trees draw n h lo hi i).
      depth_of t = h \<and> set (ref_counts t) = {0} \<and> set (cur_counts t) = {0})"
proof (induction n arbitrary: i)
  case 0
  then show ?case by simp
next
  case (Suc n)
  obtain t j where b: "build_tree draw h lo hi i = (t, j)"
    by (cases "build_tree draw h lo hi i")
  show ?case
    using Suc [of j] build_tree_props [of draw h lo hi i] b by simp
qed

lemma construct_params [simp]:
  "n_trees (construct g rg n h w seed) = n"
  "height (construct g rg n h w seed) = h"
  "window_size (construct g rg n h w seed) = w"
  "learned (construct g rg n h w seed) = 0"
  by (simp_all add: construct_def)

lemma construct_inv: "hst_inv (construct g rg n h w seed)"
  using build_trees_props [of "g seed" n h "fst rg" "snd rg" 0]
  by (simp add: hst_inv_def construct_def)

lemma construct_refs:
  "\<forall>t \<in> set (trees (construct g rg n h w seed)). \<forall>r \<in> set (ref_counts t). r = 0"
  using build_trees_props [of "g seed" n h "fst rg" "snd rg" 0]
  by (simp add: construct_def)

lemma learn_params [simp]:
  "n_trees (hst_learn_one m v) = n_trees m"
  "height (hst_learn_one m v) = height m"
  "window_size (hst_learn_one m v) = window_size m"
  "learned (hst_learn_one m v) = Suc (learned m)"
  by (simp_all add: hst_learn_one_def Let_def)

lemma learn_inv:
  assumes "hst_inv m" and w: "0 < window_size m"
  shows "hst_inv (hst_learn_one m v)"
proof -
  let ?w = "window_size m"
  let ?c = "learned m mod ?w"
  have c: "?c < ?w" using w by simp
  have len: "length (trees m) = n_trees m"
    and dep: "\<And>t. t \<in> set (trees m) \<Longrightarrow> depth_of t \<le> height m"
    and refs: "\<And>t. t \<in> set (trees m) \<Longrightarrow> \<forall>r \<in> set (ref_counts t). r \<le> ?w"
    and curs: "\<And>t. t \<in> set (trees m) \<Longrightarrow> \<forall>c \<in> set (cur_counts t). c \<le> ?c"
    using assms(1) by (auto simp: hst_inv_def)
  have curs': "\<forall>c \<in> set (cur_counts (learn_tree v t)). c \<le> Suc ?c" if "t \<in> set (trees m)" for t
    using curs [OF that] by (rule learn_tree_cur)
  show ?thesis
  proof (cases "Suc (learned m) mod ?w = 0")
    case True
    have "\<forall>r \<in> set (cur_counts (learn_tree v t)). r \<le> ?w" if "t \<in> set (trees m)" for t
      using curs' [OF that] c by auto
    then show ?thesis
      using True w len dep
      by (auto simp: hst_inv_def hst_learn_one_def Let_def rotate_tree_counts learn_tree_counts)
  next
    case False
    then have "Suc (learned m) mod ?w = Suc ?c"
      by (simp add: mod_Suc split: if_splits)
    then show ?thesis
      using False w len dep refs curs'
      by (auto simp: hst_inv_def hst_learn_one_def Let_def learn_tree_counts)
  qed
qed

lemma learn_all_params [simp]:
  "n_trees (foldl hst_learn_one m vs) = n_trees m"
  "height (foldl hst_learn_one m vs) = height m"
  "window_size (foldl hst_learn_one m vs) = window_size m"
  "learned (foldl hst_learn_one m vs) = learned m + length vs"
  by (induction vs arbitrary: m) simp_all

lemma learn_all_inv:
  "hst_inv m \<Longrightarrow> 0 < window_size m \<Longrightarrow> hst_inv (foldl hst_learn_one m vs)"
  by (induction vs arbitrary: m) (simp_all add: learn_inv)

lemma learn_zero_refs:
  assumes "\<forall>t \<in> set (trees m). \<forall>r \<in> set (ref_counts t). r = 0"
    and "Suc (learned m) < window_size m"
  shows "\<forall>t \<in> set (trees (hst_learn_one m v)). \<forall>r \<in> set (ref_counts t). r = 0"
  using assms by (simp add: hst_learn_one_def Let_def learn_tree_counts)

lemma learn_all_zero_refs:
  "\<forall>t \<in> set (trees m). \<forall>r \<in> set (ref_counts t). r = 0 \<Longrightarrow>
   learned m + length vs < window_size m \<Longrightarrow>
   \<forall>t \<in> set (trees (foldl hst_learn_one m vs)). \<forall>r \<in> set (ref_counts t). r = 0"
proof (induction vs arbitrary: m)
  case Nil
  then show ?case by simp
next
  case (Cons x vs)
  have "\<forall>t \<in> set (trees (hst_learn_one m x)). \<forall>r \<in> set (ref_counts t). r = 0"
    using Cons.prems by (intro learn_zero_refs) simp_all
  then show ?case
    using Cons.prems by (simp add: Cons.IH)
qed

lemma score_in_range:
  assumes "hst_inv m" and n: "0 < n_trees m" and w: "0 < window_size m"
  shows "\<exists>sc. hst_score_one m v = Inr sc \<and> 0 \<le> sc \<and> sc \<le> 1"
proof (cases "learned m < window_size m")
  case True
  then show ?thesis by (simp add: hst_score_one_def)
next
  case False
  let ?B = "max_mass (height m) (window_size m)"
  let ?total = "sum_list (map (\<lambda>t. path_mass t v 0) (trees m))"
  let ?denom = "real (n_trees m) * ?B"
  have B: "0 < ?B" using w by (rule max_mass_pos)
  have denom: "0 < ?denom" using n B by simp
  have each: "\<forall>t \<in> set (trees m). 0 \<le> path_mass t v 0 \<and> path_mass t v 0 \<le> ?B"
    using assms(1) by (auto simp: hst_inv_def path_mass_nonneg intro: path_mass_max)
  have len: "length (trees m) = n_trees m"
    using assms(1) by (simp add: hst_inv_def)
  have tot: "0 \<le> ?total" "?total \<le> ?denom"
    using sum_list_bound [OF each] len by simp_all
  have "?denom \<noteq> 0" using denom by (metis less_irrefl)
  then have "hst_score_one m v = Inr (1 - ?total / ?denom)"
    using False by (simp only: hst_score_one_def Let_def if_False)
  moreover have "0 \<le> ?total / ?denom" "?total / ?denom \<le> 1"
    using tot denom by simp_all
  then have "0 \<le> 1 - ?total / ?denom" "1 - ?total / ?denom \<le> 1"
    by simp_all
  ultimately show ?thesis by blast
qed

lemma walk_learn: "walk (learn_tree v t) v = map (\<lambda>(r, c). (r, Suc c)) (walk t v)"
  by (induction t) simp_all

lemma walk_rotate: "walk (rotate_tree t) v = map (\<lambda>(r, c). (c, 0)) (walk t v)"
  by (induction t) simp_all

lemma walk_build: "walk (fst (build_tree draw h lo hi i)) v = replicate (Suc h) (0, 0)"
proof (induction h arbitrary: lo hi i)
  case 0
  then show ?case by simp
next
  case (Suc h)
  let ?p = "lo + draw i * (hi - lo)"
  obtain l j where l: "build_tree draw h lo ?p (Suc i) = (l, j)"
    by (cases "build_tree draw h lo ?p (Suc i)")
  obtain r k where r: "build_tree draw h ?p hi j = (r, k)"
    by (cases "build_tree draw h ?p hi j")
  have "build_tree draw (Suc h) lo hi i = (Node ?p 0 0 l r, k)"
    by (simp add: Let_def l r)
  then show ?case
    using Suc [of lo ?p "Suc i"] Suc [of ?p hi j] l r by simp
qed

lemma walk_build_trees:
  "\<forall>t \<in> set (build_trees draw n h lo hi i). walk t v = replicate (Suc h) (0, 0)"
proof (induction n arbitrary: i)
  case 0
  then show ?case by simp
next
  case (Suc n)
  obtain t j where b: "build_tree draw h lo hi i = (t, j)"
    by (cases "build_tree draw h lo hi i")
  show ?case
    using Suc [of j] walk_build [of draw h lo hi i v] b by simp
qed

lemma path_mass_full_walk:
  "walk t v = replicate (Suc h) (W, c) \<Longrightarrow>
   path_mass t v d = real W * (\<Sum>i\<le>h. 1 / 2 ^ (d + i))"
proof (induction t arbitrary: d h)
  case (Leaf r cu)
  then have "h = 0" "r = W"
    by (cases h; simp)+
  then show ?case by simp
next
  case (Node p r cu lt rt)
  let ?child = "if v < p then lt else rt"
  from Node.prems have r: "r = W" and w: "walk ?child v = replicate h (W, c)"
    by simp_all
  obtain h' where h: "h = Suc h'"
  proof (cases h)
    case 0
    with w have "walk ?child v = []" by simp
    then show ?thesis by (cases ?child) simp_all
  next
    case (Suc k)
    then show ?thesis by (rule that)
  qed
  have child: "path_mass ?child v (Suc d) = real W * (\<Sum>i\<le>h'. 1 / 2 ^ (Suc d + i))"
  proof (cases "v < p")
    case True
    with w h have "walk lt v = replicate (Suc h') (W, c)" by simp
    from Node.IH(1) [OF this] True show ?thesis by simp
  next
    case False
    with w h have "walk rt v = replicate (Suc h') (W, c)" by simp
    from Node.IH(2) [OF this] False show ?thesis by simp
  qed
  have shift: "(\<Sum>i\<le>Suc h'. (1::real) / 2 ^ (d + i)) =
      1 / 2 ^ d + (\<Sum>i\<le>h'. 1 / 2 ^ (Suc d + i))"
  proof -
    have "(\<Sum>i\<le>Suc h'. (1::real) / 2 ^ (d + i)) =
        1 / 2 ^ (d + 0) + (\<Sum>i\<le>h'. 1 / 2 ^ (d + Suc i))"
      by (rule sum.atMost_Suc_shift)
    then show ?thesis by simp
  qed
  have "path_mass (Node p r cu lt rt) v d = real W / 2 ^ d + path_mass ?child v (Suc d)"
    by (simp add: r)
  also have "\<dots> = real W * (\<Sum>i\<le>h. 1 / 2 ^ (d + i))"
    unfolding child h shift by (simp only: distrib_left times_divide_eq_right mult_1_right)
  finally show ?case .
qed

lemma sum_list_const:
  "(\<forall>x \<in> set xs. f x = (B::real)) \<Longrightarrow> sum_list (map f xs) = real (length xs) * B"
  by (induction xs) (simp_all add: algebra_simps)

lemma constant_stream_walk:
  assumes w: "0 < w"
  shows "\<forall>t \<in> set (trees (foldl hst_learn_one (construct g rg n h w seed) (replicate k c))).
           walk t c = replicate (Suc h) (if w \<le> k then w else 0, k mod w)"
proof (induction k)
  case 0
  show ?case
    using walk_build_trees [of "g seed" n h "fst rg" "snd rg" 0 c]
    by (simp add: construct_def)
next
  case (Suc k)
  let ?m = "foldl hst_learn_one (construct g rg n h w seed) (replicate k c)"
  have step: "foldl hst_learn_one (construct g rg n h w seed) (replicate (Suc k) c) =
      hst_learn_one ?m c"
  proof -
    have "replicate (Suc k) c = replicate k c @ [c]"
      by (simp add: replicate_append_same)
    then show ?thesis
      by (simp only: foldl_append foldl.simps)
  qed
  have lw: "learned ?m = k" "window_size ?m = w"
    by simp_all
  show ?case
  proof (cases "Suc k mod w = 0")
    case True
    then have full: "Suc (k mod w) = w"
      by (simp add: mod_Suc split: if_splits)
    have le: "w \<le> Suc k"
      using True w by (metis mod_less nat.distinct(1) not_less)
    have tr: "trees (hst_learn_one ?m c) = map rotate_tree (map (learn_tree c) (trees ?m))"
      using True w by (simp add: hst_learn_one_def Let_def)
    show ?thesis
      unfolding step tr
      using Suc True le full by (auto simp: walk_rotate walk_learn)
  next
    case False
    then have next_mod: "Suc k mod w = Suc (k mod w)"
      by (simp add: mod_Suc split: if_splits)
    have same: "w \<le> Suc k \<longleftrightarrow> w \<le> k"
      using False by (cases "w = Suc k") auto
    have tr: "trees (hst_learn_one ?m c) = map (learn_tree c) (trees ?m)"
      using False by (simp add: hst_learn_one_def Let_def)
    show ?thesis
      unfolding step tr
      using Suc next_mod same by (auto simp: walk_learn)
  qed
qed

lemma constant_stream_score:
  assumes n: "0 < n" and w: "0 < w"
  shows "hst_score_one (foldl hst_learn_one (construct g rg n h w seed) (replicate k c)) c = Inr 0"
proof (cases "k < w")
  case True
  then show ?thesis by (simp add: hst_score_one_def)
next
  case False
  let ?m = "foldl hst_learn_one (construct g rg n h w seed) (replicate k c)"
  have inv: "hst_inv ?m"
    using w by (simp add: learn_all_inv construct_inv)
  have len: "length (trees ?m) = n"
    using inv by (simp add: hst_inv_def)
  have each: "\<forall>t \<in> set (trees ?m). path_mass t c 0 = max_mass h w"
  proof
    fix t assume "t \<in> set (trees ?m)"
    then have "walk t c = replicate (Suc h) (w, k mod w)"
      using constant_stream_walk [OF w, of g rg n h seed k c] False by simp
    from path_mass_full_walk [OF this, of 0] show "path_mass t c 0 = max_mass h w"
      by (simp add: max_mass_def)
  qed
  have total: "sum_list (map (\<lambda>t. path_mass t c 0) (trees ?m)) = real n * max_mass h w"
    using sum_list_const [OF each] len by simp
  have pos: "0 < real n * max_mass h w"
    using n max_mass_pos [OF w, of h] by simp
  then have ne: "real n * max_mass h w \<noteq> 0"
    by (metis less_irrefl)
  have nl: "\<not> learned ?m < window_size ?m"
    using False by simp
  have "hst_score_one ?m c = Inr (1 - real n * max_mass h w / (real n * max_mass h w))"
    using nl ne by (simp add: hst_score_one_def Let_def total)
  then show ?thesis
    using ne by simp
qed

subsection \<open>The anomaly score\<close>

text \<open>
  Claim C7. For a model with at least one tree and a positive window size, in every
  state that is reached from construction by learning any sequence of values, scoring
  any value returns a score, and the score lies between 0 and 1. Values of extreme
  magnitude and zero are values like any other.
\<close>

theorem score_within_unit_interval:
  "0 < n \<Longrightarrow> 0 < w \<Longrightarrow>
   \<exists>sc. hst_score_one (foldl hst_learn_one (construct g rg n h w seed) vs) v = Inr sc \<and>
        0 \<le> sc \<and> sc \<le> 1"
  by (rule score_in_range) (simp_all add: learn_all_inv construct_inv)

theorem score_within_unit_interval_witness:
  "(0::nat) < 2
   \<and> (\<exists>sc. hst_score_one (foldl hst_learn_one (construct half_generator (0, 1) 2 2 2 42)
              [0.3, 0.7, 0.3]) (10 ^ 12) = Inr sc \<and> 0 \<le> sc \<and> sc \<le> 1)
   \<and> hst_score_one (foldl hst_learn_one (construct half_generator (0, 1) 2 2 2 42)
        [0.3, 0.7, 0.3]) (10 ^ 12) = Inr (2 / 7)
   \<and> (\<exists>sc. hst_score_one (foldl hst_learn_one (construct half_generator (0, 1) 2 2 2 42)
              [0.3, 0.7, 0.3]) 0.3 = Inr sc \<and> 0 \<le> sc \<and> sc \<le> 1)
   \<and> hst_score_one (foldl hst_learn_one (construct half_generator (0, 1) 2 2 2 42)
        [0.3, 0.7, 0.3]) 0.3 = Inr (3 / 14)"
proof -
  have pos: "(0::nat) < 2" by simp
  have far: "hst_score_one (foldl hst_learn_one (construct half_generator (0, 1) 2 2 2 42)
        [0.3, 0.7, 0.3]) (10 ^ 12) = Inr (2 / 7)"
    by code_simp
  have near: "hst_score_one (foldl hst_learn_one (construct half_generator (0, 1) 2 2 2 42)
        [0.3, 0.7, 0.3]) 0.3 = Inr (3 / 14)"
    by code_simp
  show ?thesis
    using score_within_unit_interval [OF pos pos, of half_generator "(0, 1)" 2 42
        "[0.3, 0.7, 0.3]" "10 ^ 12"]
      score_within_unit_interval [OF pos pos, of half_generator "(0, 1)" 2 42
        "[0.3, 0.7, 0.3]" "0.3"]
      far near pos
    by simp
qed

text \<open>
  Claim C8. As long as fewer samples have been learned than the window holds, no
  rotation has taken place: every reference count is zero and every score is exactly
  0. Scoring never divides by zero, in any reachable state, also when all the values
  learned are the same one; and a model that has learned only one value gives that
  value the score 0, before and after any rotation.
\<close>

theorem no_signal_before_first_rotation:
  "0 < n \<Longrightarrow> 0 < w \<Longrightarrow>
   (length vs < w \<longrightarrow>
      (\<forall>t \<in> set (trees (foldl hst_learn_one (construct g rg n h w seed) vs)).
         \<forall>r \<in> set (ref_counts t). r = 0) \<and>
      hst_score_one (foldl hst_learn_one (construct g rg n h w seed) vs) v = Inr 0)
   \<and> hst_score_one (foldl hst_learn_one (construct g rg n h w seed) us) v \<noteq>
       Inl ZeroDivisionError
   \<and> hst_score_one (foldl hst_learn_one (construct g rg n h w seed) (replicate k c)) v \<noteq>
       Inl ZeroDivisionError
   \<and> hst_score_one (foldl hst_learn_one (construct g rg n h w seed) (replicate k c)) c = Inr 0"
proof -
  assume n: "0 < n" and w: "0 < w"
  let ?m0 = "construct g rg n h w seed"
  have zero: "(\<forall>t \<in> set (trees (foldl hst_learn_one ?m0 vs)).
         \<forall>r \<in> set (ref_counts t). r = 0) \<and>
      hst_score_one (foldl hst_learn_one ?m0 vs) v = Inr 0" if "length vs < w"
  proof -
    have refs: "\<forall>t \<in> set (trees (foldl hst_learn_one ?m0 vs)). \<forall>r \<in> set (ref_counts t). r = 0"
      using that by (intro learn_all_zero_refs construct_refs) simp
    have "hst_score_one (foldl hst_learn_one ?m0 vs) v = Inr 0"
      using that by (simp add: hst_score_one_def)
    with refs show ?thesis by simp
  qed
  have ok: "hst_score_one (foldl hst_learn_one ?m0 xs) v \<noteq> Inl ZeroDivisionError" for xs
    using score_in_range [of "foldl hst_learn_one ?m0 xs" v] n w
    by (auto simp: learn_all_inv construct_inv)
  have const: "hst_score_one (foldl hst_learn_one ?m0 (replicate k c)) c = Inr 0"
    using n w by (rule constant_stream_score)
  show ?thesis
    using zero ok const by blast
qed

theorem no_signal_before_first_rotation_witness:
  "(0::nat) < 2 \<and> length [0.3 :: real] < 2
   \<and> set (concat (map ref_counts
        (trees (foldl hst_learn_one (construct half_generator (0, 1) 2 2 2 42) [0.3])))) = {0}
   \<and> hst_score_one (foldl hst_learn_one (construct half_generator (0, 1) 2 2 2 42) [0.3]) 0.7 =
       Inr 0
   \<and> hst_score_one (foldl hst_learn_one (construct half_generator (0, 1) 2 2 2 42)
        (replicate 5 0.3)) 0.3 = Inr 0
   \<and> hst_score_one (foldl hst_learn_one (construct half_generator (0, 1) 2 2 2 42)
        (replicate 5 0.3)) 0.9 = Inr (3 / 7)"
proof -
  have pos: "(0::nat) < 2" by simp
  have len: "length [0.3 :: real] < 2" by simp
  note inst = no_signal_before_first_rotation [OF pos pos, of "[0.3]" half_generator "(0, 1)" 2 42
        "0.7" "[]" 5 "0.3"]
  have refs: "concat (map ref_counts
        (trees (foldl hst_learn_one (construct half_generator (0, 1) 2 2 2 42) [0.3]))) =
      replicate 14 0"
    by code_simp
  have zero: "hst_score_one (foldl hst_learn_one (construct half_generator (0, 1) 2 2 2 42) [0.3])
      0.7 = Inr 0"
    using inst len by blast
  have const: "hst_score_one (foldl hst_learn_one (construct half_generator (0, 1) 2 2 2 42)
        (replicate 5 0.3)) 0.3 = Inr 0"
    using inst by blast
  have other: "hst_score_one (foldl hst_learn_one (construct half_generator (0, 1) 2 2 2 42)
        (replicate 5 0.3)) 0.9 = Inr (3 / 7)"
    by code_simp
  show ?thesis
    using pos len zero const other by (simp only: refs) simp
qed

end
